theory Spec2Isabelle
  imports Complex_Main "HOL-Library.Multiset"
begin

section \<open>Values and data of the route\<close>

text \<open>
  The route \<^verbatim>\<open>src/app/api/v1/main/route.ts\<close> answers a question in five stages:
  \<^verbatim>\<open>extractKeywords\<close>, \<^verbatim>\<open>fetchArxivPapers\<close>, \<^verbatim>\<open>upsertToPinecone\<close>,
  \<^verbatim>\<open>performVectorSearch\<close> and \<^verbatim>\<open>generateAnswer\<close> (or \<^verbatim>\<open>generateNoResultsAnswer\<close>).
  Every exception of the source (a rejected promise, a \<^verbatim>\<open>throw\<close>, a property read on
  \<^verbatim>\<open>undefined\<close>) is a value \<open>Inl e\<close> of the model.
\<close>

datatype error =
    TypeError                \<comment> \<open>a property read on \<^verbatim>\<open>undefined\<close>\<close>
  | FetchFailed string       \<comment> \<open>\<^verbatim>\<open>throw new Error(`Failed to fetch data: ...`)\<close>\<close>
  | Thrown string            \<comment> \<open>a rejection raised by a collaborator\<close>

text \<open>
  \<^verbatim>\<open>xml2js\<close> runs with \<^verbatim>\<open>explicitArray: false\<close>: a child element that is absent is
  \<^verbatim>\<open>undefined\<close>, one that occurs once is the child itself, one that occurs several times
  is an array.
\<close>

datatype 'a js_field = Missing | Single 'a | Many "'a list"

datatype author_obj = Author (author_name: string)          \<comment> \<open>\<^verbatim>\<open>{ name: string }\<close>\<close>
datatype category_obj = Category (category_term: string)    \<comment> \<open>\<^verbatim>\<open>{ $: { term: string } }\<close>\<close>
datatype link_obj = Link (link_href: string)                \<comment> \<open>\<^verbatim>\<open>{ $: { href: string } }\<close>\<close>

text \<open>
  An entry of the feed (interface \<^verbatim>\<open>ArxivPaper\<close>). The field \<^verbatim>\<open>id\<close> is \<open>paper_id\<close> here.
  \<open>summary\<close> is \<open>None\<close> for an entry that has no summary element. \<open>link\<close> is read by
  \<^verbatim>\<open>processArxivResponse\<close> only.
\<close>

record ArxivPaper =
  paper_id :: string
  title :: string
  summary :: "string option"
  author :: "author_obj js_field"
  category :: "category_obj js_field"
  published :: string
  link :: "link_obj js_field"

text \<open>
  A metadata value of the index: absent, a string, or an array of strings (the two shapes
  \<^verbatim>\<open>upsertToPinecone\<close> writes).
\<close>

datatype js_value = JUndefined | JString string | JArray "string list"

type_synonym vector = "real list"

record metadata =
  m_title :: js_value
  m_abstract :: js_value
  m_authors :: js_value
  m_categories :: js_value
  m_published :: js_value

record index_record =
  rec_id :: string
  rec_values :: vector
  rec_metadata :: metadata

text \<open>A match of a similarity query: \<^verbatim>\<open>score\<close> and \<^verbatim>\<open>metadata\<close> are optional.\<close>

record scored_match =
  match_id :: string
  score :: "real option"
  match_metadata :: "metadata option"

record query_request =
  q_vector :: vector
  topK :: nat
  includeMetadata :: bool
  includeValues :: bool

text \<open>
  Interface \<^verbatim>\<open>RelevantPaper\<close>. The casts \<^verbatim>\<open>as string\<close> and \<^verbatim>\<open>as number\<close> of the source
  convert nothing, so a field holds whatever the match held.
\<close>

record RelevantPaper =
  r_title :: js_value
  r_abstract :: js_value
  r_authors :: js_value
  r_categories :: js_value
  r_published :: js_value
  similarity :: "real option"

record http_response =
  resp_ok :: bool
  resp_statusText :: string
  resp_body :: string

text \<open>The result of parsing: \<^verbatim>\<open>result.feed\<close> (absent for a payload with no feed root) and its \<^verbatim>\<open>entry\<close>.\<close>

record feed =
  entry :: "ArxivPaper js_field"

record parsed_xml =
  xml_feed :: "feed option"

section \<open>Collaborators and the world\<close>

text \<open>
  Modelled from the spec: the vector index collaborator (the client of \<^verbatim>\<open>@/lib/pinecone\<close>
  is not part of the sources). The index is a map from identifiers to records; an upsert
  that succeeds stores the record under its identifier, replacing a record of the same
  identifier (the last case of \<open>advance\<close> below), and an upsert that fails stores nothing.
\<close>

type_synonym store = "string \<rightharpoonup> index_record"

text \<open>Calls that leave the process, in the order they are issued.\<close>

datatype event =
    GenerateContent string          \<comment> \<open>\<^verbatim>\<open>chatModel.generateContent(prompt)\<close>\<close>
  | Fetch string                    \<comment> \<open>\<^verbatim>\<open>fetch(url)\<close>\<close>
  | EmbedContent "string option"    \<comment> \<open>\<^verbatim>\<open>embeddingModel.embedContent(text)\<close>\<close>
  | Upsert index_record             \<comment> \<open>\<^verbatim>\<open>index.upsert([record])\<close>\<close>
  | Query query_request             \<comment> \<open>\<^verbatim>\<open>index.query(request)\<close>\<close>

record world =
  index :: store
  trace :: "event list"

text \<open>
  The collaborators, as the parameters of the model: the outcome of a call is a function
  of its arguments (and, for a query, of the index). \<open>toFixed\<close> is the number formatting
  of the runtime. \<open>schedule\<close> is the order in which the runtime settles the pending
  operations of the fan-out of \<^verbatim>\<open>upsertToPinecone\<close>: each occurrence of \<open>i\<close> settles the
  operation the \<open>i\<close>-th paper is waiting for.
\<close>

record env =
  generateContent :: "string \<Rightarrow> error + string"
  embedContent :: "string option \<Rightarrow> error + vector"
  http_fetch :: "string \<Rightarrow> error + http_response"
  parseStringPromise :: "string \<Rightarrow> error + parsed_xml"
  encodeURIComponent :: "string \<Rightarrow> string"
  index_upsert :: "index_record \<Rightarrow> error option"
  index_query :: "store \<Rightarrow> query_request \<Rightarrow> error + scored_match list"
  toFixed :: "nat \<Rightarrow> real \<Rightarrow> string"
  schedule :: "nat list"

definition log_event :: "event \<Rightarrow> world \<Rightarrow> world" where
  "log_event ev w = w\<lparr>trace := trace w @ [ev]\<rparr>"

section \<open>Strings\<close>

definition nl :: string where
  "nl = [CHR 0x0A]"

definition dq :: string where
  "dq = [CHR 0x22]"

text \<open>\<^verbatim>\<open>Array.prototype.join\<close> on strings.\<close>

fun join :: "string \<Rightarrow> string list \<Rightarrow> string" where
  "join sep [] = []"
| "join sep [x] = x"
| "join sep (x # y # ys) = x @ sep @ join sep (y # ys)"

text \<open>String conversion of a template literal.\<close>

fun to_string :: "js_value \<Rightarrow> string" where
  "to_string JUndefined = ''undefined''"
| "to_string (JString s) = s"
| "to_string (JArray xs) = join '','' xs"

text \<open>\<^verbatim>\<open>Array.prototype.map\<close> with a callback that may throw: the first throw ends the map.\<close>

fun map_result :: "('a \<Rightarrow> error + 'b) \<Rightarrow> 'a list \<Rightarrow> error + 'b list" where
  "map_result f [] = Inr []"
| "map_result f (x # xs) =
     (case f x of
        Inl e \<Rightarrow> Inl e
      | Inr y \<Rightarrow> (case map_result f xs of Inl e \<Rightarrow> Inl e | Inr ys \<Rightarrow> Inr (y # ys)))"

section \<open>Query Interpreter: \<^verbatim>\<open>extractKeywords\<close>\<close>

definition keywordsPrompt :: "string \<Rightarrow> string" where
  "keywordsPrompt query =
     ''Extract 3-5 key terms or phrases from the following question and format them in the arXiv API query style: all:''
     @ dq @ ''term1'' @ dq @ '' OR all:'' @ dq @ ''term2'' @ dq
     @ '' and so on. Ensure the output follows this exact format.'' @ nl @ nl
     @ ''Question: '' @ query"

definition extractKeywords :: "env \<Rightarrow> string \<Rightarrow> world \<Rightarrow> (error + string) \<times> world" where
  "extractKeywords E query w =
     (generateContent E (keywordsPrompt query),
      log_event (GenerateContent (keywordsPrompt query)) w)"

section \<open>Corpus Fetcher: \<^verbatim>\<open>fetchArxivPapers\<close> and \<^verbatim>\<open>processArxivResponse\<close>\<close>

definition baseURL :: string where
  "baseURL = ''http://export.arxiv.org/api/query''"

definition queryString :: "env \<Rightarrow> string \<Rightarrow> string" where
  "queryString E keywords =
     join ''&'' (map (\<lambda>(key, v). key @ ''='' @ encodeURIComponent E v)
       [(''search_query'', keywords), (''start'', ''0''), (''max_results'', ''10''),
        (''sortBy'', ''relevance''), (''sortOrder'', ''descending'')])"

definition fetchUrl :: "env \<Rightarrow> string \<Rightarrow> string" where
  "fetchUrl E keywords = baseURL @ ''?'' @ queryString E keywords"

text \<open>
  Lines 94 to 100 of the route: an absent \<^verbatim>\<open>entry\<close> is the empty list, an array is
  returned as it is, a single entry is wrapped.
\<close>

definition entries_of :: "feed \<Rightarrow> ArxivPaper list" where
  "entries_of f = (case entry f of Missing \<Rightarrow> [] | Many es \<Rightarrow> es | Single e \<Rightarrow> [e])"

definition fetchArxivPapers :: "env \<Rightarrow> string \<Rightarrow> world \<Rightarrow> (error + ArxivPaper list) \<times> world" where
  "fetchArxivPapers E keywords w =
     (let url = fetchUrl E keywords; w1 = log_event (Fetch url) w in
      case http_fetch E url of
        Inl e \<Rightarrow> (Inl e, w1)
      | Inr response \<Rightarrow>
          if \<not> resp_ok response then (Inl (FetchFailed (resp_statusText response)), w1)
          else
            (case parseStringPromise E (resp_body response) of
               Inl e \<Rightarrow> (Inl e, w1)
             | Inr result \<Rightarrow>
                 (case xml_feed result of
                    None \<Rightarrow> (Inl TypeError, w1)
                  | Some f \<Rightarrow> (Inr (entries_of f), w1))))"

text \<open>The library fetcher (\<^verbatim>\<open>src/unnamed/part_000\<close>): the projection of one entry.\<close>

record paper_view =
  v_id :: string
  v_title :: string
  v_summary :: "string option"
  v_authors :: string
  v_link :: string

definition entry_view :: "ArxivPaper \<Rightarrow> error + paper_view" where
  "entry_view e =
     (case author e of
        Missing \<Rightarrow> Inl TypeError
      | Many as \<Rightarrow>
          (case link e of
             Single l \<Rightarrow> Inr \<lparr>v_id = paper_id e, v_title = title e, v_summary = summary e,
                              v_authors = join '', '' (map author_name as), v_link = link_href l\<rparr>
           | _ \<Rightarrow> Inl TypeError)
      | Single a \<Rightarrow>
          (case link e of
             Single l \<Rightarrow> Inr \<lparr>v_id = paper_id e, v_title = title e, v_summary = summary e,
                              v_authors = author_name a, v_link = link_href l\<rparr>
           | _ \<Rightarrow> Inl TypeError))"

definition processArxivResponse :: "parsed_xml \<Rightarrow> error + paper_view list" where
  "processArxivResponse result =
     (case xml_feed result of
        None \<Rightarrow> Inl TypeError
      | Some f \<Rightarrow>
          (case entry f of
             Missing \<Rightarrow> Inr []
           | Many es \<Rightarrow> map_result entry_view es
           | Single e \<Rightarrow> map_result entry_view [e]))"

section \<open>Indexer: \<^verbatim>\<open>upsertToPinecone\<close>\<close>

text \<open>
  The part of the callback that runs once the embedding has arrived (lines 108 to 130):
  the categories, then the record with its metadata. Reading \<^verbatim>\<open>.$\<close> or \<^verbatim>\<open>.name\<close> of
  an absent field throws.
\<close>

definition categories_of :: "ArxivPaper \<Rightarrow> error + js_value" where
  "categories_of paper =
     (case category paper of
        Many cs \<Rightarrow> Inr (JArray (map category_term cs))
      | Single c \<Rightarrow> Inr (JString (category_term c))
      | Missing \<Rightarrow> Inl TypeError)"

definition authors_of :: "ArxivPaper \<Rightarrow> error + js_value" where
  "authors_of paper =
     (case author paper of
        Many as \<Rightarrow> Inr (JString (join '', '' (map author_name as)))
      | Single a \<Rightarrow> Inr (JString (author_name a))
      | Missing \<Rightarrow> Inl TypeError)"

definition summary_value :: "ArxivPaper \<Rightarrow> js_value" where
  "summary_value paper = (case summary paper of None \<Rightarrow> JUndefined | Some s \<Rightarrow> JString s)"

definition build_record :: "ArxivPaper \<Rightarrow> vector \<Rightarrow> error + index_record" where
  "build_record paper embedding =
     (case categories_of paper of
        Inl e \<Rightarrow> Inl e
      | Inr categories \<Rightarrow>
          (case authors_of paper of
             Inl e \<Rightarrow> Inl e
           | Inr authors \<Rightarrow>
               Inr \<lparr>rec_id = paper_id paper, rec_values = embedding,
                    rec_metadata = \<lparr>m_title = JString (title paper),
                                     m_abstract = summary_value paper,
                                     m_authors = authors,
                                     m_categories = categories,
                                     m_published = JString (published paper)\<rparr>\<rparr>))"

text \<open>
  One promise of \<open>upsertPromises\<close>: it waits for the embedding of its paper, then for
  the upsert of its record, and is then fulfilled; a failure of either rejects it.
\<close>

datatype task =
    AwaitEmbed ArxivPaper
  | AwaitUpsert index_record
  | Fulfilled
  | Rejected error

text \<open>
  The operation a task waits for settles. After the embedding, the callback runs on to
  the call of \<^verbatim>\<open>index.upsert\<close>; after the upsert, the record is in the index.
\<close>

fun advance :: "env \<Rightarrow> task \<Rightarrow> world \<Rightarrow> task \<times> world" where
  "advance E (AwaitEmbed paper) w =
     (case embedContent E (summary paper) of
        Inl e \<Rightarrow> (Rejected e, w)
      | Inr embedding \<Rightarrow>
          (case build_record paper embedding of
             Inl e \<Rightarrow> (Rejected e, w)
           | Inr r \<Rightarrow> (AwaitUpsert r, log_event (Upsert r) w)))"
| "advance E (AwaitUpsert r) w =
     (case index_upsert E r of
        Some e \<Rightarrow> (Rejected e, w)
      | None \<Rightarrow> (Fulfilled, w\<lparr>index := (index w)(rec_id r \<mapsto> r)\<rparr>))"
| "advance E Fulfilled w = (Fulfilled, w)"
| "advance E (Rejected e) w = (Rejected e, w)"

text \<open>
  \<^verbatim>\<open>Promise.all(upsertPromises)\<close>: \<open>joined\<close> is \<open>None\<close> while the join is pending. It is
  rejected with the error of the first task that is rejected, and fulfilled once every
  task is fulfilled. A settled join never changes.
\<close>

record fanout =
  tasks :: "task list"
  joined :: "(error + unit) option"
  fan_world :: world

definition settle :: "task list \<Rightarrow> task \<Rightarrow> (error + unit) option \<Rightarrow> (error + unit) option" where
  "settle ts t j =
     (case j of
        Some r \<Rightarrow> Some r
      | None \<Rightarrow>
          (case t of
             Rejected e \<Rightarrow> Some (Inl e)
           | _ \<Rightarrow> if list_all (\<lambda>t. t = Fulfilled) ts then Some (Inr ()) else None))"

definition step :: "env \<Rightarrow> fanout \<Rightarrow> nat \<Rightarrow> fanout" where
  "step E st i =
     (if i < length (tasks st) then
        (let (t, w) = advance E (tasks st ! i) (fan_world st);
             ts = (tasks st)[i := t]
         in \<lparr>tasks = ts, joined = settle ts t (joined st), fan_world = w\<rparr>)
      else st)"

definition run :: "env \<Rightarrow> nat list \<Rightarrow> fanout \<Rightarrow> fanout" where
  "run E sched st = foldl (step E) st sched"

text \<open>
  \<^verbatim>\<open>papers.map(async ...)\<close> runs every callback up to its first \<^verbatim>\<open>await\<close>: the embedding of
  every paper is requested, in the order of the papers, before any of them is awaited.
\<close>

definition start :: "ArxivPaper list \<Rightarrow> world \<Rightarrow> fanout" where
  "start papers w =
     \<lparr>tasks = map AwaitEmbed papers,
      joined = (if papers = [] then Some (Inr ()) else None),
      fan_world = w\<lparr>trace := trace w @ map (\<lambda>paper. EmbedContent (summary paper)) papers\<rparr>\<rparr>"

text \<open>
  The result is \<open>None\<close> when the join never settles: the call does not return. The world
  is the one after the whole schedule: the operations that are pending when the join is
  rejected are not cancelled.
\<close>

definition upsertToPinecone :: "env \<Rightarrow> ArxivPaper list \<Rightarrow> world \<Rightarrow> (error + unit) option \<times> world" where
  "upsertToPinecone E papers w =
     (let st = run E (schedule E) (start papers w) in (joined st, fan_world st))"

section \<open>Similarity Searcher: \<^verbatim>\<open>performVectorSearch\<close>\<close>

definition usable :: "scored_match \<Rightarrow> bool" where
  "usable m = (match_metadata m \<noteq> None \<and> score m \<noteq> None)"

definition to_relevant :: "scored_match \<Rightarrow> error + RelevantPaper" where
  "to_relevant m =
     (case match_metadata m of
        None \<Rightarrow> Inl TypeError
      | Some md \<Rightarrow>
          Inr \<lparr>r_title = m_title md, r_abstract = m_abstract md, r_authors = m_authors md,
               r_categories = m_categories md, r_published = m_published md,
               similarity = score m\<rparr>)"

definition search_request :: "vector \<Rightarrow> query_request" where
  "search_request questionEmbedding =
     \<lparr>q_vector = questionEmbedding, topK = 5, includeMetadata = True, includeValues = True\<rparr>"

definition performVectorSearch :: "env \<Rightarrow> string \<Rightarrow> world \<Rightarrow> (error + RelevantPaper list) \<times> world" where
  "performVectorSearch E query w =
     (let w1 = log_event (EmbedContent (Some query)) w in
      case embedContent E (Some query) of
        Inl e \<Rightarrow> (Inl e, w1)
      | Inr questionEmbedding \<Rightarrow>
          (let w2 = log_event (Query (search_request questionEmbedding)) w1 in
           case index_query E (index w2) (search_request questionEmbedding) of
             Inl e \<Rightarrow> (Inl e, w2)
           | Inr matches \<Rightarrow> (map_result to_relevant (filter usable matches), w2)))"

section \<open>Answer Synthesizer: \<^verbatim>\<open>generateAnswer\<close> and \<^verbatim>\<open>generateNoResultsAnswer\<close>\<close>

text \<open>
  The template of one paper (lines 163 to 168). \<^verbatim>\<open>paper.similarity.toFixed(4)\<close> throws
  on a similarity that is \<^verbatim>\<open>undefined\<close>.
\<close>

definition render :: "env \<Rightarrow> RelevantPaper \<Rightarrow> error + string" where
  "render E paper =
     (case similarity paper of
        None \<Rightarrow> Inl TypeError
      | Some s \<Rightarrow>
          Inr (''Title: '' @ to_string (r_title paper) @ nl
             @ ''Authors: '' @ to_string (r_authors paper) @ nl
             @ ''Categories: '' @ to_string (r_categories paper) @ nl
             @ ''Published: '' @ to_string (r_published paper) @ nl
             @ ''Similarity: '' @ toFixed E 4 s @ nl
             @ ''Abstract: '' @ to_string (r_abstract paper)))"

definition answer_head :: string where
  "answer_head =
     ''You are an AI research assistant specializing in machine learning and time series forecasting. ''
     @ ''Answer the following question based on the provided research paper summaries. ''
     @ ''If the information is not sufficient, say so, but try to provide insights from what is available.''
     @ nl @ nl @ ''Question: '' @ dq"

definition answer_mid :: string where
  "answer_mid =
     dq @ nl @ nl @ ''Context (summaries of relevant papers, ordered by relevance):'' @ nl"

definition answer_instructions :: string where
  "answer_instructions =
     nl @ nl @ ''Instructions:'' @ nl
     @ ''1. Synthesize information from the provided papers to answer the question.'' @ nl
     @ ''2. Highlight any conflicting findings or perspectives from different papers.'' @ nl
     @ ''3. Mention any limitations or gaps in the current research related to the question.'' @ nl
     @ ''4. Suggest potential areas for further research based on the findings.'' @ nl
     @ ''5. Do not mention specific papers by title in your response, but integrate their insights.'' @ nl
     @ ''6. If you don'' @ [CHR 0x27] @ ''t find enough relevant info, provide a general concise answer based on your understanding of the question.'' @ nl
     @ ''7. If you cannot provide an answer based on the provided context, give a general answer based on your understanding of the question.'' @ nl
     @ ''8. Don'' @ [CHR 0x27] @ ''t repeat the question in your response.'' @ nl @ nl
     @ ''Please provide a clear, concise, and informative answer:''"

definition answerPrompt :: "string \<Rightarrow> string \<Rightarrow> string" where
  "answerPrompt query context = answer_head @ query @ answer_mid @ context @ answer_instructions"

definition generateAnswer ::
  "env \<Rightarrow> string \<Rightarrow> RelevantPaper list \<Rightarrow> world \<Rightarrow> (error + string) \<times> world" where
  "generateAnswer E query relevantPapers w =
     (case map_result (render E) relevantPapers of
        Inl e \<Rightarrow> (Inl e, w)
      | Inr segments \<Rightarrow>
          (let prompt = answerPrompt query (join (nl @ nl) segments) in
           (generateContent E prompt, log_event (GenerateContent prompt) w)))"

definition noResultsPrompt :: "string \<Rightarrow> string" where
  "noResultsPrompt query =
     ''You are an AI research assistant. The following question was asked, but no relevant arXiv papers were found. ''
     @ ''Please provide a general response based on your knowledge:'' @ nl @ nl
     @ ''Question: '' @ dq @ query @ dq @ nl @ nl
     @ ''Instructions:'' @ nl
     @ ''1. Provide a brief, informative answer to the question based on general knowledge.'' @ nl
     @ ''2. Mention that no specific arXiv papers were found for this query.'' @ nl
     @ ''3. Suggest some related topics or areas that the user might want to explore instead.'' @ nl
     @ ''4. Don'' @ [CHR 0x27] @ ''t repeat the question in your response.'' @ nl @ nl
     @ ''Please provide a clear and helpful response:''"

definition generateNoResultsAnswer :: "env \<Rightarrow> string \<Rightarrow> world \<Rightarrow> (error + string) \<times> world" where
  "generateNoResultsAnswer E query w =
     (generateContent E (noResultsPrompt query),
      log_event (GenerateContent (noResultsPrompt query)) w)"

section \<open>The route handler: \<^verbatim>\<open>GET\<close>\<close>

text \<open>
  The body of \<^verbatim>\<open>NextResponse.json\<close> is an object: a list of keys with their values.
\<close>

datatype json = JText string | JPapers "ArxivPaper list"

record response =
  status :: nat
  body :: "(string \<times> json) list"

definition json_ok :: "string \<Rightarrow> string \<Rightarrow> ArxivPaper list \<Rightarrow> response" where
  "json_ok answer keywords papers =
     \<lparr>status = 200,
      body = [(''answer'', JText answer), (''keywords'', JText keywords), (''papers'', JPapers papers)]\<rparr>"

text \<open>The response of the \<^verbatim>\<open>catch\<close> block: the same for every error.\<close>

definition failure_response :: response where
  "failure_response =
     \<lparr>status = 500, body = [(''error'', JText ''An error occurred while processing the request'')]\<rparr>"

text \<open>\<^verbatim>\<open>searchParams.get('query') || "Can cows grow"\<close>: an absent or empty parameter is replaced.\<close>

definition userQuery_of :: "string option \<Rightarrow> string" where
  "userQuery_of param =
     (case param of None \<Rightarrow> ''Can cows grow'' | Some s \<Rightarrow> if s = [] then ''Can cows grow'' else s)"

text \<open>
  The handler. The response is \<open>None\<close> when the handler waits for ever on the join of the
  Indexer. The writes to the console are left out.
\<close>

definition GET :: "env \<Rightarrow> string option \<Rightarrow> world \<Rightarrow> response option \<times> world" where
  "GET E param w0 =
     (let userQuery = userQuery_of param in
      case extractKeywords E userQuery w0 of
        (Inl e, w1) \<Rightarrow> (Some failure_response, w1)
      | (Inr keywords, w1) \<Rightarrow>
          (case fetchArxivPapers E keywords w1 of
             (Inl e, w2) \<Rightarrow> (Some failure_response, w2)
           | (Inr papers, w2) \<Rightarrow>
               if length papers = 0 then
                 (case generateNoResultsAnswer E userQuery w2 of
                    (Inl e, w3) \<Rightarrow> (Some failure_response, w3)
                  | (Inr noResultsAnswer, w3) \<Rightarrow> (Some (json_ok noResultsAnswer keywords []), w3))
               else
                 (case upsertToPinecone E papers w2 of
                    (None, w3) \<Rightarrow> (None, w3)
                  | (Some (Inl e), w3) \<Rightarrow> (Some failure_response, w3)
                  | (Some (Inr u), w3) \<Rightarrow>
                      (case performVectorSearch E userQuery w3 of
                         (Inl e, w4) \<Rightarrow> (Some failure_response, w4)
                       | (Inr relevantPapers, w4) \<Rightarrow>
                           (case generateAnswer E userQuery relevantPapers w4 of
                              (Inl e, w5) \<Rightarrow> (Some failure_response, w5)
                            | (Inr answer, w5) \<Rightarrow> (Some (json_ok answer keywords papers), w5))))))"

section \<open>Notions for the claims about the Searcher\<close>

text \<open>
  Most similar first: of two scored entries, the earlier has the higher or the same score.
\<close>

definition score_desc :: "real option \<Rightarrow> real option \<Rightarrow> bool" where
  "score_desc a b = (case (a, b) of (Some x, Some y) \<Rightarrow> y \<le> x | _ \<Rightarrow> True)"

section \<open>Notions for the claims about the Indexer\<close>

text \<open>The record a paper is upserted with, or the error of its embedding or of building it.\<close>

definition record_of :: "env \<Rightarrow> ArxivPaper \<Rightarrow> error + index_record" where
  "record_of E paper =
     (case embedContent E (summary paper) of
        Inl e \<Rightarrow> Inl e
      | Inr embedding \<Rightarrow> build_record paper embedding)"

text \<open>The operation of a paper fails: its embedding, the building of its record, or its upsert.\<close>

definition op_fails :: "env \<Rightarrow> ArxivPaper \<Rightarrow> bool" where
  "op_fails E paper =
     (case record_of E paper of Inl e \<Rightarrow> True | Inr r \<Rightarrow> index_upsert E r \<noteq> None)"

text \<open>
  A schedule under which both operations of each of \<open>n\<close> papers settle: every index
  below \<open>n\<close> occurs at least twice.
\<close>

definition complete :: "nat list \<Rightarrow> nat \<Rightarrow> bool" where
  "complete sched n = (\<forall>i < n. 2 \<le> count_list sched i)"

text \<open>The invariant of the fan-out, for the papers it was started with.\<close>

definition task_ok :: "env \<Rightarrow> store \<Rightarrow> ArxivPaper \<Rightarrow> task \<Rightarrow> bool" where
  "task_ok E ix paper t =
     (case t of
        AwaitEmbed paper' \<Rightarrow> paper' = paper
      | AwaitUpsert r \<Rightarrow> record_of E paper = Inr r
      | Fulfilled \<Rightarrow> \<not> op_fails E paper \<and> paper_id paper \<in> dom ix
      | Rejected e \<Rightarrow> op_fails E paper)"

definition join_ok :: "task list \<Rightarrow> (error + unit) option \<Rightarrow> bool" where
  "join_ok ts j =
     (case j of
        None \<Rightarrow> (\<forall>e. Rejected e \<notin> set ts) \<and> \<not> list_all (\<lambda>t. t = Fulfilled) ts
      | Some (Inl e) \<Rightarrow> Rejected e \<in> set ts
      | Some (Inr u) \<Rightarrow> list_all (\<lambda>t. t = Fulfilled) ts)"

definition issued :: "env \<Rightarrow> ArxivPaper \<Rightarrow> task \<Rightarrow> index_record multiset" where
  "issued E paper t =
     (case t of
        AwaitEmbed paper' \<Rightarrow> {#}
      | _ \<Rightarrow> (case record_of E paper of Inl e \<Rightarrow> {#} | Inr r \<Rightarrow> {#r#}))"

definition fan_inv :: "env \<Rightarrow> ArxivPaper list \<Rightarrow> world \<Rightarrow> fanout \<Rightarrow> bool" where
  "fan_inv E papers w0 st =
     (list_all2 (task_ok E (index (fan_world st))) papers (tasks st)
      \<and> join_ok (tasks st) (joined st)
      \<and> (\<exists>us. trace (fan_world st)
                 = trace w0 @ map (\<lambda>paper. EmbedContent (summary paper)) papers @ map Upsert us
               \<and> mset us = sum_list (map2 (issued E) papers (tasks st)))
      \<and> dom (index w0) \<subseteq> dom (index (fan_world st)))"

definition rank :: "task \<Rightarrow> nat" where
  "rank t = (case t of AwaitEmbed paper \<Rightarrow> 0 | AwaitUpsert r \<Rightarrow> 1 | _ \<Rightarrow> 2)"

text \<open>The records of the papers whose embedding and record succeed, in the order of the papers.\<close>

definition records_of :: "env \<Rightarrow> ArxivPaper list \<Rightarrow> index_record list" where
  "records_of E papers =
     concat (map (\<lambda>paper. case record_of E paper of Inl e \<Rightarrow> [] | Inr r \<Rightarrow> [r]) papers)"

section \<open>Notions for the claims about the handler\<close>

text \<open>The world once the keywords were extracted and the papers fetched.\<close>

definition world_fetched :: "env \<Rightarrow> string \<Rightarrow> string \<Rightarrow> world \<Rightarrow> world" where
  "world_fetched E userQuery keywords w0 =
     log_event (Fetch (fetchUrl E keywords)) (log_event (GenerateContent (keywordsPrompt userQuery)) w0)"

text \<open>The world once the Indexer has run on the fetched papers.\<close>

definition world_indexed :: "env \<Rightarrow> string \<Rightarrow> string \<Rightarrow> ArxivPaper list \<Rightarrow> world \<Rightarrow> world" where
  "world_indexed E userQuery keywords papers w0 =
     snd (upsertToPinecone E papers (world_fetched E userQuery keywords w0))"

text \<open>The value of a key of a response body.\<close>

definition body_value :: "response \<Rightarrow> string \<Rightarrow> json option" where
  "body_value r key = map_of (body r) key"

section \<open>Example inputs\<close>

definition example_paper :: ArxivPaper where
  "example_paper =
     \<lparr>paper_id = ''http://arxiv.org/abs/2401.00001v1'', title = ''Attention for series'',
      summary = Some ''We study attention.'', author = Single (Author ''Ada''),
      category = Single (Category ''cs.LG''), published = ''2024-01-01T00:00:00Z'',
      link = Single (Link ''http://arxiv.org/abs/2401.00001v1'')\<rparr>"

definition example_matches :: "scored_match list" where
  "example_matches =
     [\<lparr>match_id = ''a'', score = Some 0.9,
       match_metadata = Some \<lparr>m_title = JString ''T1'', m_abstract = JString ''A1'',
         m_authors = JString ''Ada'', m_categories = JArray [''cs.LG'', ''stat.ML''],
         m_published = JString ''2024''\<rparr>\<rparr>,
      \<lparr>match_id = ''b'', score = Some 0.8, match_metadata = None\<rparr>,
      \<lparr>match_id = ''c'', score = None,
       match_metadata = Some \<lparr>m_title = JString ''T3'', m_abstract = JString ''A3'',
         m_authors = JString ''Cy'', m_categories = JString ''cs.CL'',
         m_published = JString ''2023''\<rparr>\<rparr>,
      \<lparr>match_id = ''d'', score = Some 0.5,
       match_metadata = Some \<lparr>m_title = JString ''T4'', m_abstract = JUndefined,
         m_authors = JString ''Di, Ed'', m_categories = JString ''cs.AI'',
         m_published = JString ''2022''\<rparr>\<rparr>]"

text \<open>
  Collaborators that all succeed, except that the embedder rejects an absent text; the
  feed carries the given \<^verbatim>\<open>entry\<close> field.
\<close>

definition example_env :: "ArxivPaper js_field \<Rightarrow> env" where
  "example_env fld =
     \<lparr>generateContent = (\<lambda>prompt. Inr ''some text''),
      embedContent = (\<lambda>t. case t of None \<Rightarrow> Inl (Thrown ''empty content'') | Some s \<Rightarrow> Inr [1, 0]),
      http_fetch = (\<lambda>url. Inr \<lparr>resp_ok = True, resp_statusText = ''OK'', resp_body = ''<feed/>''\<rparr>),
      parseStringPromise = (\<lambda>xml. Inr \<lparr>xml_feed = Some \<lparr>entry = fld\<rparr>\<rparr>),
      encodeURIComponent = (\<lambda>s. s),
      index_upsert = (\<lambda>r. None),
      index_query = (\<lambda>ix request. Inr example_matches),
      toFixed = (\<lambda>digits x. ''0.9000''),
      schedule = [0, 1, 0, 1]\<rparr>"

definition empty_world :: world where
  "empty_world = \<lparr>index = Map.empty, trace = []\<rparr>"

definition example_relevant :: "RelevantPaper list" where
  "example_relevant =
     [\<lparr>r_title = JString ''T1'', r_abstract = JString ''A1'', r_authors = JString ''Ada'',
       r_categories = JArray [''cs.LG'', ''stat.ML''], r_published = JString ''2024'',
       similarity = Some 0.9\<rparr>,
      \<lparr>r_title = JString ''T4'', r_abstract = JUndefined, r_authors = JString ''Di, Ed'',
       r_categories = JString ''cs.AI'', r_published = JString ''2022'',
       similarity = Some 0.5\<rparr>]"

definition example_paper_no_abstract :: ArxivPaper where
  "example_paper_no_abstract =
     \<lparr>paper_id = ''http://arxiv.org/abs/2401.00002v1'', title = ''No abstract here'',
      summary = None, author = Many [Author ''Bo'', Author ''Cy''],
      category = Many [Category ''cs.LG'', Category ''stat.ML''],
      published = ''2024-01-02T00:00:00Z'',
      link = Many [Link ''http://arxiv.org/abs/2401.00002v1'', Link ''http://arxiv.org/pdf/2401.00002v1'']\<rparr>"

text \<open>
  Collaborators as in \<open>example_env Missing\<close>, but the generation returns the empty text for
  every prompt other than the one that extracts keywords.
\<close>

definition example_env_silent :: env where
  "example_env_silent =
     (example_env Missing)
       \<lparr>generateContent := (\<lambda>prompt. if take 7 prompt = ''Extract'' then Inr ''all:xyzzy'' else Inr [])\<rparr>"

text \<open>
  Collaborators as in \<open>example_env\<close>, but the index returns only matches that lack their
  metadata or their score.
\<close>

definition example_env_unusable :: env where
  "example_env_unusable =
     (example_env (Single example_paper))
       \<lparr>index_query := (\<lambda>ix request. Inr [example_matches ! 1, example_matches ! 2])\<rparr>"

section \<open>Facts about the helpers\<close>

lemma map_result_total:
  "\<forall>x \<in> set xs. \<exists>y. f x = Inr y \<Longrightarrow>
   \<exists>ys. map_result f xs = Inr ys \<and> list_all2 (\<lambda>x y. f x = Inr y) xs ys"
proof (induction xs)
  case Nil
  then show ?case by simp
next
  case (Cons x xs)
  then obtain y where y: "f x = Inr y" by auto
  from Cons obtain ys where "map_result f xs = Inr ys" "list_all2 (\<lambda>x y. f x = Inr y) xs ys"
    by auto
  with y show ?case by simp
qed

section \<open>Corpus Fetcher\<close>

lemma fetch_entries:
  assumes "http_fetch E (fetchUrl E kw) = Inr r" "resp_ok r"
    "parseStringPromise E (resp_body r) = Inr x" "xml_feed x = Some f"
  shows "fetchArxivPapers E kw w = (Inr (entries_of f), log_event (Fetch (fetchUrl E kw)) w)"
  using assms by (simp add: fetchArxivPapers_def Let_def)

text \<open>
  Claim C3. When the request succeeds and the payload parses to a feed, an absent
  \<^verbatim>\<open>entry\<close> field gives the empty list of papers and no error, and a single entry that is
  not an array gives the list of that one entry. \<^verbatim>\<open>processArxivResponse\<close> treats the
  field in the same way: empty list for an absent field, and for a single entry the list
  of its one projection (or the error raised while projecting it).
\<close>

theorem fetcher_normalizes_entry_field:
  assumes "http_fetch E (fetchUrl E kw) = Inr r" and "resp_ok r"
    and "parseStringPromise E (resp_body r) = Inr x" and "xml_feed x = Some f"
  shows "(entry f = Missing \<longrightarrow>
            fst (fetchArxivPapers E kw w) = Inr [] \<and> processArxivResponse x = Inr [])
       \<and> (\<forall>e. entry f = Single e \<longrightarrow>
            fst (fetchArxivPapers E kw w) = Inr [e]
            \<and> processArxivResponse x = (case entry_view e of Inl err \<Rightarrow> Inl err | Inr v \<Rightarrow> Inr [v]))"
  using assms
  by (auto simp: fetch_entries entries_of_def processArxivResponse_def split: sum.splits)

theorem fetcher_normalizes_entry_field_witness:
  "fst (fetchArxivPapers (example_env Missing) ''all:x'' empty_world) = Inr []
   \<and> processArxivResponse \<lparr>xml_feed = Some \<lparr>entry = Missing\<rparr>\<rparr> = Inr []
   \<and> fst (fetchArxivPapers (example_env (Single example_paper)) ''all:x'' empty_world)
       = Inr [example_paper]
   \<and> processArxivResponse \<lparr>xml_feed = Some \<lparr>entry = Single example_paper\<rparr>\<rparr>
       = Inr [\<lparr>v_id = ''http://arxiv.org/abs/2401.00001v1'', v_title = ''Attention for series'',
               v_summary = Some ''We study attention.'', v_authors = ''Ada'',
               v_link = ''http://arxiv.org/abs/2401.00001v1''\<rparr>]"
proof -
  let ?r = "\<lparr>resp_ok = True, resp_statusText = ''OK'', resp_body = ''<feed/>''\<rparr>"
  have a: "fst (fetchArxivPapers (example_env Missing) ''all:x'' empty_world) = Inr []
      \<and> processArxivResponse \<lparr>xml_feed = Some \<lparr>entry = Missing\<rparr>\<rparr> = Inr []"
    using fetcher_normalizes_entry_field
      [of "example_env Missing" "''all:x''" ?r "\<lparr>xml_feed = Some \<lparr>entry = Missing\<rparr>\<rparr>"
          "\<lparr>entry = Missing\<rparr>" empty_world]
    by (simp add: example_env_def)
  have b: "fst (fetchArxivPapers (example_env (Single example_paper)) ''all:x'' empty_world)
        = Inr [example_paper]
      \<and> processArxivResponse \<lparr>xml_feed = Some \<lparr>entry = Single example_paper\<rparr>\<rparr>
        = (case entry_view example_paper of Inl err \<Rightarrow> Inl err | Inr v \<Rightarrow> Inr [v])"
    using fetcher_normalizes_entry_field
      [of "example_env (Single example_paper)" "''all:x''" ?r
          "\<lparr>xml_feed = Some \<lparr>entry = Single example_paper\<rparr>\<rparr>"
          "\<lparr>entry = Single example_paper\<rparr>" empty_world]
    by (simp add: example_env_def)
  have c: "entry_view example_paper
      = Inr \<lparr>v_id = ''http://arxiv.org/abs/2401.00001v1'', v_title = ''Attention for series'',
               v_summary = Some ''We study attention.'', v_authors = ''Ada'',
               v_link = ''http://arxiv.org/abs/2401.00001v1''\<rparr>"
    by (simp add: entry_view_def example_paper_def)
  from a b c show ?thesis by simp
qed

section \<open>Similarity Searcher\<close>

lemma to_relevant_usable: "usable m \<Longrightarrow> \<exists>r. to_relevant m = Inr r"
  by (auto simp: usable_def to_relevant_def)

lemma to_relevant_similarity: "to_relevant m = Inr r \<Longrightarrow> similarity r = score m"
  by (auto simp: to_relevant_def split: option.splits)

lemma list_all2_similarity:
  "list_all2 (\<lambda>m r. to_relevant m = Inr r) ms rs \<Longrightarrow> map similarity rs = map score ms"
  by (induction rule: list_all2_induct) (auto simp: to_relevant_similarity)

lemma search_result:
  assumes "embedContent E (Some q) = Inr v" "index_query E (index w) (search_request v) = Inr ms"
  shows "performVectorSearch E q w =
     (map_result to_relevant (filter usable ms),
      log_event (Query (search_request v)) (log_event (EmbedContent (Some q)) w))"
  using assms by (simp add: performVectorSearch_def Let_def log_event_def)

text \<open>
  Claim C6. When the embedding of the question and the query of the index succeed, the
  Searcher has asked the index for the 5 nearest records with their metadata, returns no
  error, and returns exactly the matches that have both metadata and a score, converted
  one by one in the order the index returned them; so a result that the index ordered most
  similar first stays so, and at most 5 matches give at most 5 papers.
\<close>

theorem search_keeps_usable_matches_in_order:
  assumes "embedContent E (Some q) = Inr v"
    and "index_query E (index w) (search_request v) = Inr ms"
  shows "\<exists>rs. fst (performVectorSearch E q w) = Inr rs
      \<and> trace (snd (performVectorSearch E q w))
          = trace w @ [EmbedContent (Some q),
               Query \<lparr>q_vector = v, topK = 5, includeMetadata = True, includeValues = True\<rparr>]
      \<and> list_all2 (\<lambda>m r. to_relevant m = Inr r) (filter usable ms) rs
      \<and> map similarity rs = map score (filter usable ms)
      \<and> (\<forall>r \<in> set rs. similarity r \<noteq> None)
      \<and> (sorted_wrt (\<lambda>a b. score_desc (score a) (score b)) ms
           \<longrightarrow> sorted_wrt (\<lambda>a b. score_desc (similarity a) (similarity b)) rs)
      \<and> (length ms \<le> 5 \<longrightarrow> length rs \<le> 5)"
proof -
  let ?kept = "filter usable ms"
  have "\<forall>m \<in> set ?kept. \<exists>r. to_relevant m = Inr r"
    by (simp add: to_relevant_usable)
  from map_result_total [OF this] obtain rs
    where rs: "map_result to_relevant ?kept = Inr rs"
      and all2: "list_all2 (\<lambda>m r. to_relevant m = Inr r) ?kept rs"
    by blast
  have sim: "map similarity rs = map score ?kept"
    using all2 by (rule list_all2_similarity)
  have len: "length rs = length ?kept"
    using all2 by (simp add: list_all2_lengthD)
  have scored: "\<forall>r \<in> set rs. similarity r \<noteq> None"
  proof
    fix r assume "r \<in> set rs"
    then have "similarity r \<in> set (map score ?kept)" using sim by (metis imageI set_map)
    then show "similarity r \<noteq> None" by (auto simp: usable_def)
  qed
  have ordered: "sorted_wrt (\<lambda>a b. score_desc (similarity a) (similarity b)) rs"
    if "sorted_wrt (\<lambda>a b. score_desc (score a) (score b)) ms"
  proof -
    from that have "sorted_wrt (\<lambda>a b. score_desc (score a) (score b)) ?kept"
      by (rule sorted_wrt_filter)
    then have "sorted_wrt score_desc (map score ?kept)" by (simp add: sorted_wrt_map)
    then have "sorted_wrt score_desc (map similarity rs)" by (simp add: sim)
    then show ?thesis by (simp add: sorted_wrt_map)
  qed
  have short: "length rs \<le> 5" if "length ms \<le> 5"
    using that len length_filter_le [of usable ms] by linarith
  have tr: "trace (snd (performVectorSearch E q w))
          = trace w @ [EmbedContent (Some q),
               Query \<lparr>q_vector = v, topK = 5, includeMetadata = True, includeValues = True\<rparr>]"
    by (simp add: search_result [OF assms] log_event_def search_request_def)
  have "fst (performVectorSearch E q w) = Inr rs"
    by (simp add: search_result [OF assms] rs)
  with tr all2 sim scored ordered short show ?thesis by blast
qed

theorem search_keeps_usable_matches_in_order_witness:
  "fst (performVectorSearch (example_env Missing) ''q'' empty_world)
     = Inr [\<lparr>r_title = JString ''T1'', r_abstract = JString ''A1'', r_authors = JString ''Ada'',
             r_categories = JArray [''cs.LG'', ''stat.ML''], r_published = JString ''2024'',
             similarity = Some 0.9\<rparr>,
            \<lparr>r_title = JString ''T4'', r_abstract = JUndefined, r_authors = JString ''Di, Ed'',
             r_categories = JString ''cs.AI'', r_published = JString ''2022'',
             similarity = Some 0.5\<rparr>]
   \<and> trace (snd (performVectorSearch (example_env Missing) ''q'' empty_world))
     = [EmbedContent (Some ''q''),
        Query \<lparr>q_vector = [1, 0], topK = 5, includeMetadata = True, includeValues = True\<rparr>]"
proof -
  have e: "embedContent (example_env Missing) (Some ''q'') = Inr [1, 0]"
    by (simp add: example_env_def)
  have i: "index_query (example_env Missing) (index empty_world) (search_request [1, 0])
      = Inr example_matches"
    by (simp add: example_env_def)
  from search_keeps_usable_matches_in_order [OF e i] obtain rs
    where rs: "fst (performVectorSearch (example_env Missing) ''q'' empty_world) = Inr rs"
      and tr: "trace (snd (performVectorSearch (example_env Missing) ''q'' empty_world))
          = trace empty_world @ [EmbedContent (Some ''q''),
               Query \<lparr>q_vector = [1, 0], topK = 5, includeMetadata = True, includeValues = True\<rparr>]"
      and all2: "list_all2 (\<lambda>m r. to_relevant m = Inr r) (filter usable example_matches) rs"
    by blast
  have k: "filter usable example_matches = [example_matches ! 0, example_matches ! 3]"
    by (simp add: example_matches_def usable_def)
  from all2 have "rs = [\<lparr>r_title = JString ''T1'', r_abstract = JString ''A1'', r_authors = JString ''Ada'',
             r_categories = JArray [''cs.LG'', ''stat.ML''], r_published = JString ''2024'',
             similarity = Some 0.9\<rparr>,
            \<lparr>r_title = JString ''T4'', r_abstract = JUndefined, r_authors = JString ''Di, Ed'',
             r_categories = JString ''cs.AI'', r_published = JString ''2022'',
             similarity = Some 0.5\<rparr>]"
    unfolding k by (auto simp: list_all2_Cons1 example_matches_def to_relevant_def)
  with rs tr show ?thesis by (simp add: empty_world_def)
qed

section \<open>Answer Synthesizer\<close>

lemma join_Cons: "join sep (x # ys) = (if ys = [] then x else x @ sep @ join sep ys)"
  by (cases ys) simp_all

lemma join_append:
  "xs \<noteq> [] \<Longrightarrow> ys \<noteq> [] \<Longrightarrow> join sep (xs @ ys) = join sep xs @ sep @ join sep ys"
proof (induction xs)
  case Nil
  then show ?case by simp
next
  case (Cons x xs)
  then show ?case by (cases "xs = []") (simp_all add: join_Cons)
qed

lemma join_contains:
  assumes "i < length xs"
  shows "\<exists>a c. join sep xs = a @ xs ! i @ c"
proof -
  have xs: "xs = take i xs @ (xs ! i # drop (Suc i) xs)"
    using assms by (simp add: id_take_nth_drop)
  have tl: "\<exists>c. join sep (xs ! i # drop (Suc i) xs) = xs ! i @ c"
    by (simp add: join_Cons)
  show ?thesis
  proof (cases "take i xs = []")
    case True
    with xs tl show ?thesis by (metis append_Nil)
  next
    case False
    then have "join sep xs = join sep (take i xs) @ sep @ join sep (xs ! i # drop (Suc i) xs)"
      using join_append [of "take i xs" "xs ! i # drop (Suc i) xs" sep] xs by simp
    with tl show ?thesis by (metis append.assoc)
  qed
qed

lemma join_order:
  assumes "i < j" "j < length xs"
  shows "\<exists>a b c. join sep xs = a @ xs ! i @ b @ xs ! j @ c"
proof -
  have xs: "xs = take j xs @ (xs ! j # drop (Suc j) xs)"
    using assms by (simp add: id_take_nth_drop)
  have ne: "take j xs \<noteq> []" using assms by auto
  have whole: "join sep xs = join sep (take j xs) @ sep @ join sep (xs ! j # drop (Suc j) xs)"
    using join_append [OF ne, of "xs ! j # drop (Suc j) xs" sep] xs by simp
  have "\<exists>c. join sep (xs ! j # drop (Suc j) xs) = xs ! j @ c"
    by (simp add: join_Cons)
  then obtain c where c: "join sep (xs ! j # drop (Suc j) xs) = xs ! j @ c" ..
  have "i < length (take j xs)" using assms by simp
  from join_contains [OF this, of sep] obtain a b
    where "join sep (take j xs) = a @ take j xs ! i @ b" by blast
  then have "join sep (take j xs) = a @ xs ! i @ b" using assms by simp
  with whole c have "join sep xs = a @ xs ! i @ (b @ sep) @ xs ! j @ c" by simp
  then show ?thesis by blast
qed

lemma render_scored:
  "similarity p = Some s \<Longrightarrow>
   render E p = Inr (''Title: '' @ to_string (r_title p) @ nl
             @ ''Authors: '' @ to_string (r_authors p) @ nl
             @ ''Categories: '' @ to_string (r_categories p) @ nl
             @ ''Published: '' @ to_string (r_published p) @ nl
             @ ''Similarity: '' @ toFixed E 4 s @ nl
             @ ''Abstract: '' @ to_string (r_abstract p))"
  by (simp add: render_def)

text \<open>
  Claim C7. For every list of retrieved papers that all carry a similarity (as every
  result of the Searcher does), the grounded prompt is the fixed head, the question, then
  the renderings of the papers joined by an empty line in exactly the order of the list,
  then the fixed instructions; the rendering of an earlier paper stands before that of a
  later one; and each rendering is the title, authors, categories, publication date,
  similarity formatted by \<^verbatim>\<open>toFixed(4)\<close> and abstract, in that order.
\<close>

theorem grounded_prompt_keeps_order:
  assumes "\<forall>p \<in> set ps. similarity p \<noteq> None"
  shows "\<exists>segs. list_all2 (\<lambda>p s. render E p = Inr s) ps segs
      \<and> generateAnswer E q ps w
          = (generateContent E (answerPrompt q (join (nl @ nl) segs)),
             log_event (GenerateContent (answerPrompt q (join (nl @ nl) segs))) w)
      \<and> answerPrompt q (join (nl @ nl) segs)
          = answer_head @ q @ answer_mid @ join (nl @ nl) segs @ answer_instructions
      \<and> (\<forall>i j. i < j \<and> j < length ps \<longrightarrow>
            (\<exists>a b c. join (nl @ nl) segs = a @ segs ! i @ b @ segs ! j @ c))
      \<and> (\<forall>p \<in> set ps. \<forall>s. similarity p = Some s \<longrightarrow>
            render E p = Inr (''Title: '' @ to_string (r_title p) @ nl
               @ ''Authors: '' @ to_string (r_authors p) @ nl
               @ ''Categories: '' @ to_string (r_categories p) @ nl
               @ ''Published: '' @ to_string (r_published p) @ nl
               @ ''Similarity: '' @ toFixed E 4 s @ nl
               @ ''Abstract: '' @ to_string (r_abstract p)))"
proof -
  have "\<forall>p \<in> set ps. \<exists>s. render E p = Inr s"
    using assms by (auto simp: render_def split: option.splits)
  from map_result_total [OF this] obtain segs
    where segs: "map_result (render E) ps = Inr segs"
      and all2: "list_all2 (\<lambda>p s. render E p = Inr s) ps segs"
    by blast
  have len: "length segs = length ps" using all2 by (simp add: list_all2_lengthD)
  have gen: "generateAnswer E q ps w
          = (generateContent E (answerPrompt q (join (nl @ nl) segs)),
             log_event (GenerateContent (answerPrompt q (join (nl @ nl) segs))) w)"
    by (simp add: generateAnswer_def segs Let_def)
  have ord: "\<forall>i j. i < j \<and> j < length ps \<longrightarrow>
            (\<exists>a b c. join (nl @ nl) segs = a @ segs ! i @ b @ segs ! j @ c)"
    using join_order [of _ _ segs "nl @ nl"] len by simp
  have shape: "\<forall>p \<in> set ps. \<forall>s. similarity p = Some s \<longrightarrow>
            render E p = Inr (''Title: '' @ to_string (r_title p) @ nl
               @ ''Authors: '' @ to_string (r_authors p) @ nl
               @ ''Categories: '' @ to_string (r_categories p) @ nl
               @ ''Published: '' @ to_string (r_published p) @ nl
               @ ''Similarity: '' @ toFixed E 4 s @ nl
               @ ''Abstract: '' @ to_string (r_abstract p))"
    by (simp add: render_scored)
  from all2 gen ord shape show ?thesis
    by (intro exI [of _ segs] conjI) (simp_all add: answerPrompt_def)
qed

theorem grounded_prompt_keeps_order_witness:
  "fst (generateAnswer (example_env Missing) ''q'' example_relevant empty_world) = Inr ''some text''
   \<and> trace (snd (generateAnswer (example_env Missing) ''q'' example_relevant empty_world))
     = [GenerateContent (answer_head @ ''q'' @ answer_mid
          @ ''Title: T1'' @ nl @ ''Authors: Ada'' @ nl @ ''Categories: cs.LG,stat.ML'' @ nl
          @ ''Published: 2024'' @ nl @ ''Similarity: 0.9000'' @ nl @ ''Abstract: A1''
          @ nl @ nl
          @ ''Title: T4'' @ nl @ ''Authors: Di, Ed'' @ nl @ ''Categories: cs.AI'' @ nl
          @ ''Published: 2022'' @ nl @ ''Similarity: 0.9000'' @ nl @ ''Abstract: undefined''
          @ answer_instructions)]"
proof -
  have h: "\<forall>p \<in> set example_relevant. similarity p \<noteq> None"
    by (simp add: example_relevant_def del: not_None_eq)
  from grounded_prompt_keeps_order [OF h, of "example_env Missing" "''q''" empty_world]
  obtain segs
    where all2: "list_all2 (\<lambda>p s. render (example_env Missing) p = Inr s) example_relevant segs"
      and gen: "generateAnswer (example_env Missing) ''q'' example_relevant empty_world
          = (generateContent (example_env Missing) (answerPrompt ''q'' (join (nl @ nl) segs)),
             log_event (GenerateContent (answerPrompt ''q'' (join (nl @ nl) segs))) empty_world)"
    by blast
  from all2 have segs: "segs =
      [''Title: T1'' @ nl @ ''Authors: Ada'' @ nl @ ''Categories: cs.LG,stat.ML'' @ nl
          @ ''Published: 2024'' @ nl @ ''Similarity: 0.9000'' @ nl @ ''Abstract: A1'',
       ''Title: T4'' @ nl @ ''Authors: Di, Ed'' @ nl @ ''Categories: cs.AI'' @ nl
          @ ''Published: 2022'' @ nl @ ''Similarity: 0.9000'' @ nl @ ''Abstract: undefined'']"
    by (simp add: example_relevant_def list_all2_Cons1 render_scored [where s = "9 / 10"]
          render_scored [where s = "1 / 2"] example_env_def)
  show ?thesis
    unfolding gen segs
    by (simp add: answerPrompt_def log_event_def empty_world_def example_env_def)
qed

section \<open>Indexer: the metadata of a record\<close>

text \<open>
  Claim C4 as stated fails. A paper whose category is a single object is indexed with
  the bare term as its categories, not with a one-element list, and this differs from
  the categories of the same category delivered as a one-element list; the authors of
  a paper are indexed as one string, not as a list.
\<close>

theorem normalization_not_list_shaped:
  "map_sum id (m_categories \<circ> rec_metadata) (build_record example_paper [1, 0])
     = Inr (JString ''cs.LG'')
   \<and> map_sum id (m_categories \<circ> rec_metadata)
       (build_record (example_paper\<lparr>category := Many [Category ''cs.LG'']\<rparr>) [1, 0])
     = Inr (JArray [''cs.LG''])
   \<and> JString ''cs.LG'' \<noteq> JArray [''cs.LG'']
   \<and> map_sum id (m_authors \<circ> rec_metadata) (build_record example_paper [1, 0])
     = Inr (JString ''Ada'')"
  by (simp add: build_record_def categories_of_def authors_of_def example_paper_def)

text \<open>
  Claim C4, amended. The authors of a paper are indexed as one string: the names of a
  list joined by a comma and a space, the name of a single author as it is; so a single
  author and the one-element list of that author yield the same record. The categories
  keep the shape they arrive in: a list becomes the list of its terms, a single category
  becomes its bare term. A paper without author or without category yields no record but
  a type error.
\<close>

theorem authors_joined_categories_kept:
  "build_record (p\<lparr>author := Single a\<rparr>) v = build_record (p\<lparr>author := Many [a]\<rparr>) v
   \<and> (\<forall>r. build_record p v = Inr r \<longrightarrow>
        (case author p of
           Many as \<Rightarrow> m_authors (rec_metadata r) = JString (join '', '' (map author_name as))
         | Single a' \<Rightarrow> m_authors (rec_metadata r) = JString (author_name a')
         | Missing \<Rightarrow> False)
      \<and> (case category p of
           Many cs \<Rightarrow> m_categories (rec_metadata r) = JArray (map category_term cs)
         | Single c \<Rightarrow> m_categories (rec_metadata r) = JString (category_term c)
         | Missing \<Rightarrow> False))
   \<and> ((author p = Missing \<or> category p = Missing) \<longrightarrow> build_record p v = Inl TypeError)"
proof -
  have "build_record (p\<lparr>author := Single a\<rparr>) v = build_record (p\<lparr>author := Many [a]\<rparr>) v"
    by (cases "category p")
      (simp_all add: build_record_def authors_of_def categories_of_def summary_value_def)
  moreover have "\<forall>r. build_record p v = Inr r \<longrightarrow>
        (case author p of
           Many as \<Rightarrow> m_authors (rec_metadata r) = JString (join '', '' (map author_name as))
         | Single a' \<Rightarrow> m_authors (rec_metadata r) = JString (author_name a')
         | Missing \<Rightarrow> False)
      \<and> (case category p of
           Many cs \<Rightarrow> m_categories (rec_metadata r) = JArray (map category_term cs)
         | Single c \<Rightarrow> m_categories (rec_metadata r) = JString (category_term c)
         | Missing \<Rightarrow> False)"
    by (auto simp: build_record_def authors_of_def categories_of_def
          split: js_field.splits sum.splits)
  moreover have "(author p = Missing \<or> category p = Missing) \<longrightarrow> build_record p v = Inl TypeError"
    by (auto simp: build_record_def authors_of_def categories_of_def
          split: js_field.splits sum.splits)
  ultimately show ?thesis by blast
qed

theorem authors_joined_categories_kept_witness:
  "build_record (example_paper\<lparr>author := Single (Author ''Ada'')\<rparr>) [1, 0]
     = build_record (example_paper\<lparr>author := Many [Author ''Ada'']\<rparr>) [1, 0]
   \<and> map_sum id (m_authors \<circ> rec_metadata)
        (build_record (example_paper\<lparr>author := Many [Author ''Bo'', Author ''Cy'']\<rparr>) [1, 0])
     = Inr (JString ''Bo, Cy'')
   \<and> map_sum id (m_categories \<circ> rec_metadata)
        (build_record (example_paper\<lparr>author := Many [Author ''Bo'', Author ''Cy'']\<rparr>) [1, 0])
     = Inr (JString ''cs.LG'')
   \<and> build_record (example_paper\<lparr>author := Missing\<rparr>) [1, 0] = Inl TypeError"
proof -
  let ?p = "example_paper\<lparr>author := Many [Author ''Bo'', Author ''Cy'']\<rparr>"
  obtain r where r: "build_record ?p [1, 0] = Inr r"
    by (simp add: build_record_def authors_of_def categories_of_def example_paper_def)
  have a: "author ?p = Many [Author ''Bo'', Author ''Cy'']" by simp
  have c: "category ?p = Single (Category ''cs.LG'')" by (simp add: example_paper_def)
  from authors_joined_categories_kept [where p = ?p and v = "[1, 0]"] r
  have "m_authors (rec_metadata r) = JString ''Bo, Cy''"
    and "m_categories (rec_metadata r) = JString ''cs.LG''"
    unfolding a c by simp_all
  moreover have "build_record (example_paper\<lparr>author := Missing\<rparr>) [1, 0] = Inl TypeError"
    using authors_joined_categories_kept [where p = "example_paper\<lparr>author := Missing\<rparr>" and v = "[1, 0]"]
    by simp
  moreover have "build_record (example_paper\<lparr>author := Single (Author ''Ada'')\<rparr>) [1, 0]
     = build_record (example_paper\<lparr>author := Many [Author ''Ada'']\<rparr>) [1, 0]"
    using authors_joined_categories_kept [where p = example_paper and a = "Author ''Ada''" and v = "[1, 0]"] by blast
  ultimately show ?thesis by (simp add: r)
qed

section \<open>Indexer: the fan-out and its join\<close>

subsection \<open>One step\<close>

lemma step_length [simp]: "length (tasks (step E st i)) = length (tasks st)"
  by (simp add: step_def Let_def split: prod.splits)

lemma run_Nil [simp]: "run E [] st = st"
  by (simp add: run_def)

lemma run_Cons [simp]: "run E (i # s) st = run E s (step E st i)"
  by (simp add: run_def)

lemma run_append: "run E (s1 @ s2) st = run E s2 (run E s1 st)"
  by (simp add: run_def)

lemma run_length [simp]: "length (tasks (run E s st)) = length (tasks st)"
  by (induction s arbitrary: st) simp_all

lemma build_record_id: "build_record p v = Inr r \<Longrightarrow> rec_id r = paper_id p"
  by (auto simp: build_record_def split: sum.splits)

lemma record_of_id: "record_of E p = Inr r \<Longrightarrow> rec_id r = paper_id p"
  by (auto simp: record_of_def dest: build_record_id split: sum.splits)

lemma task_ok_mono: "task_ok E ix p t \<Longrightarrow> dom ix \<subseteq> dom ix' \<Longrightarrow> task_ok E ix' p t"
  by (auto simp: task_ok_def split: task.splits)

lemma advance_index: "dom (index w) \<subseteq> dom (index (snd (advance E t w)))"
  by (cases t) (auto simp: log_event_def split: sum.splits option.splits)

lemma advance_task_ok:
  "task_ok E (index w) p t \<Longrightarrow> task_ok E (index (snd (advance E t w))) p (fst (advance E t w))"
  by (cases t)
     (auto simp: task_ok_def op_fails_def record_of_def log_event_def
           dest: build_record_id split: sum.splits option.splits)

lemma advance_trace:
  assumes "task_ok E (index w) p t"
  shows "\<exists>rs. trace (snd (advance E t w)) = trace w @ map Upsert rs
      \<and> issued E p (fst (advance E t w)) = issued E p t + mset rs"
proof (cases t)
  case (AwaitEmbed p')
  with assms have [simp]: "p' = p" by (simp add: task_ok_def)
  show ?thesis
  proof (cases "record_of E p")
    case (Inl e)
    then show ?thesis using AwaitEmbed
      by (auto simp: issued_def record_of_def split: sum.splits intro!: exI [of _ "[]"])
  next
    case (Inr r)
    then show ?thesis using AwaitEmbed
      by (auto simp: issued_def record_of_def log_event_def split: sum.splits
            intro!: exI [of _ "[r]"])
  qed
next
  case (AwaitUpsert r)
  then show ?thesis
    by (auto simp: issued_def split: option.splits intro!: exI [of _ "[]"])
next
  case Fulfilled
  then show ?thesis by (auto simp: issued_def intro!: exI [of _ "[]"])
next
  case (Rejected e)
  then show ?thesis by (auto simp: issued_def intro!: exI [of _ "[]"])
qed

lemma advance_final:
  "t = Fulfilled \<or> t = Rejected e \<Longrightarrow> advance E t w = (t, w)"
  by auto

lemma join_ok_update:
  assumes j: "join_ok ts j" and i: "i < length ts"
    and f: "ts ! i = Fulfilled \<Longrightarrow> t' = Fulfilled"
    and r: "\<And>e. ts ! i = Rejected e \<Longrightarrow> t' = Rejected e"
  shows "join_ok (ts[i := t']) (settle (ts[i := t']) t' j)"
proof (cases j)
  case None
  with j have no: "\<forall>e. Rejected e \<notin> set ts" by (simp add: join_ok_def)
  show ?thesis
  proof (cases "\<exists>e. t' = Rejected e")
    case True
    then obtain e where "t' = Rejected e" ..
    with None i show ?thesis
      by (simp add: settle_def join_ok_def set_update_memI)
  next
    case False
    have "set (ts[i := t']) \<subseteq> insert t' (set ts)" by (rule set_update_subset_insert)
    with no False have "\<forall>e. Rejected e \<notin> set (ts[i := t'])" by auto
    with None False show ?thesis
      by (cases t') (simp_all add: settle_def join_ok_def)
  qed
next
  case (Some res)
  show ?thesis
  proof (cases res)
    case (Inl e)
    with Some j have "Rejected e \<in> set ts" by (simp add: join_ok_def)
    then obtain k where k: "k < length ts" "ts ! k = Rejected e"
      by (auto simp: in_set_conv_nth)
    have "(ts[i := t']) ! k = Rejected e"
      using k r [of e] by (cases "k = i") simp_all
    with k have "Rejected e \<in> set (ts[i := t'])"
      by (metis length_list_update nth_mem)
    with Some Inl show ?thesis by (simp add: settle_def join_ok_def)
  next
    case (Inr u)
    with Some j have all: "list_all (\<lambda>t. t = Fulfilled) ts" by (simp add: join_ok_def)
    with i have "ts ! i = Fulfilled" by (simp add: list_all_length)
    then have "ts[i := t'] = ts" using f by (metis list_update_id)
    with Some Inr all show ?thesis by (simp add: settle_def join_ok_def)
  qed
qed

lemma sum_list_map_update:
  fixes g :: "'a \<Rightarrow> 'b::comm_monoid_add"
  shows "i < length xs \<Longrightarrow>
    sum_list (map g (xs[i := y])) + g (xs ! i) = sum_list (map g xs) + g y"
proof (induction xs arbitrary: i)
  case Nil
  then show ?case by simp
next
  case (Cons x xs)
  show ?case
  proof (cases i)
    case 0
    then show ?thesis by (simp add: ac_simps)
  next
    case (Suc k)
    with Cons.prems have "k < length xs" by simp
    from Cons.IH [OF this] Suc show ?thesis by (simp add: ac_simps)
  qed
qed

lemma issued_update:
  assumes "i < length ps" "length ts = length ps"
    and "issued E (ps ! i) t' = issued E (ps ! i) (ts ! i) + m"
  shows "sum_list (map2 (issued E) ps (ts[i := t'])) = sum_list (map2 (issued E) ps ts) + m"
proof -
  let ?g = "\<lambda>(p, t). issued E p t"
  have z: "zip ps (ts[i := t']) = (zip ps ts)[i := (ps ! i, t')]"
    by (simp add: update_zip)
  have "sum_list (map ?g ((zip ps ts)[i := (ps ! i, t')])) + ?g (zip ps ts ! i)
      = sum_list (map ?g (zip ps ts)) + ?g (ps ! i, t')"
    using assms by (intro sum_list_map_update) simp
  then have "sum_list (map2 (issued E) ps (ts[i := t'])) + issued E (ps ! i) (ts ! i)
      = sum_list (map2 (issued E) ps ts) + m + issued E (ps ! i) (ts ! i)"
    using assms by (simp add: z ac_simps)
  then show ?thesis by simp
qed


subsection \<open>The invariant\<close>

lemma fan_inv_start: "fan_inv E papers w (start papers w)"
proof -
  have "list_all2 (task_ok E (index w)) papers (map AwaitEmbed papers)"
    by (simp add: list_all2_conv_all_nth task_ok_def)
  moreover have "join_ok (map AwaitEmbed papers) (if papers = [] then Some (Inr ()) else None)"
    by (cases papers) (auto simp: join_ok_def)
  moreover have "sum_list (map2 (issued E) papers (map AwaitEmbed papers)) = {#}"
    by (induction papers) (simp_all add: issued_def)
  ultimately show ?thesis
    by (simp add: fan_inv_def start_def)
qed

lemma fan_inv_step:
  assumes inv: "fan_inv E papers w0 st"
  shows "fan_inv E papers w0 (step E st i)"
proof (cases "i < length (tasks st)")
  case False
  with inv show ?thesis by (simp add: step_def)
next
  case True
  let ?ts = "tasks st" and ?w = "fan_world st"
  let ?t' = "fst (advance E (?ts ! i) ?w)" and ?w' = "snd (advance E (?ts ! i) ?w)"
  from inv have all2: "list_all2 (task_ok E (index ?w)) papers ?ts"
    and j: "join_ok ?ts (joined st)"
    and d: "dom (index w0) \<subseteq> dom (index ?w)"
    by (simp_all add: fan_inv_def)
  from inv obtain us where tr: "trace ?w
        = trace w0 @ map (\<lambda>paper. EmbedContent (summary paper)) papers @ map Upsert us"
    and ms: "mset us = sum_list (map2 (issued E) papers ?ts)"
    by (auto simp: fan_inv_def)
  have len: "length ?ts = length papers" using all2 by (simp add: list_all2_lengthD)
  have ok_i: "task_ok E (index ?w) (papers ! i) (?ts ! i)"
    using all2 True by (simp add: list_all2_conv_all_nth)
  have st': "step E st i
      = \<lparr>tasks = ?ts[i := ?t'], joined = settle (?ts[i := ?t']) ?t' (joined st), fan_world = ?w'\<rparr>"
    using True by (simp add: step_def Let_def split: prod.splits)
  have grow: "dom (index ?w) \<subseteq> dom (index ?w')" by (rule advance_index)
  have "list_all2 (task_ok E (index ?w')) papers ?ts"
    using all2 grow by (auto elim!: list_all2_mono intro: task_ok_mono)
  then have "list_all2 (task_ok E (index ?w')) (papers[i := papers ! i]) (?ts[i := ?t'])"
    using advance_task_ok [OF ok_i] by (intro list_all2_update_cong) simp_all
  then have c1: "list_all2 (task_ok E (index ?w')) papers (?ts[i := ?t'])" by simp
  have c2: "join_ok (?ts[i := ?t']) (settle (?ts[i := ?t']) ?t' (joined st))"
    using j True by (rule join_ok_update) simp_all
  from advance_trace [OF ok_i] obtain rs
    where rs: "trace ?w' = trace ?w @ map Upsert rs"
      and iss: "issued E (papers ! i) ?t' = issued E (papers ! i) (?ts ! i) + mset rs"
    by blast
  have "sum_list (map2 (issued E) papers (?ts[i := ?t']))
      = sum_list (map2 (issued E) papers ?ts) + mset rs"
    using True len iss by (intro issued_update) simp_all
  then have c3: "trace ?w'
        = trace w0 @ map (\<lambda>paper. EmbedContent (summary paper)) papers @ map Upsert (us @ rs)
      \<and> mset (us @ rs) = sum_list (map2 (issued E) papers (?ts[i := ?t']))"
    using rs tr ms by simp
  have c4: "dom (index w0) \<subseteq> dom (index ?w')" using d grow by blast
  from c3 have c3': "\<exists>us'. trace ?w'
        = trace w0 @ map (\<lambda>paper. EmbedContent (summary paper)) papers @ map Upsert us'
      \<and> mset us' = sum_list (map2 (issued E) papers (?ts[i := ?t']))"
    by (rule exI [of _ "us @ rs"])
  from c1 c2 c3' c4 show ?thesis
    unfolding st' fan_inv_def by simp
qed

lemma fan_inv_run: "fan_inv E papers w0 st \<Longrightarrow> fan_inv E papers w0 (run E s st)"
  by (induction s arbitrary: st) (simp_all add: fan_inv_step)

subsection \<open>Progress\<close>

lemma rank_advance: "min 2 (Suc (rank t)) \<le> rank (fst (advance E t w))"
  by (cases t) (auto simp: rank_def split: sum.splits option.splits)

lemma step_tasks:
  "i < length (tasks st) \<Longrightarrow>
   tasks (step E st i) = (tasks st)[i := fst (advance E (tasks st ! i) (fan_world st))]"
  by (simp add: step_def Let_def case_prod_beta)

lemma step_rank_self:
  assumes "i < length (tasks st)"
  shows "min 2 (Suc (rank (tasks st ! i))) \<le> rank (tasks (step E st i) ! i)"
proof -
  have "tasks (step E st i) ! i = fst (advance E (tasks st ! i) (fan_world st))"
    using assms by (simp add: step_tasks)
  then show ?thesis by (simp only: rank_advance)
qed

lemma step_rank_other:
  assumes "k < length (tasks st)"
  shows "rank (tasks st ! k) \<le> rank (tasks (step E st i) ! k)"
proof (cases "i < length (tasks st) \<and> k = i")
  case True
  with step_rank_self [of i st E] have "min 2 (Suc (rank (tasks st ! k))) \<le> rank (tasks (step E st i) ! k)"
    by simp
  moreover have "rank (tasks st ! k) \<le> 2" by (simp add: rank_def split: task.splits)
  ultimately show ?thesis by simp
next
  case False
  show ?thesis
  proof (cases "i < length (tasks st)")
    case True
    with False assms show ?thesis by (simp add: step_tasks)
  next
    case False
    then show ?thesis by (simp add: step_def)
  qed
qed

lemma run_rank:
  "k < length (tasks st) \<Longrightarrow>
   min 2 (rank (tasks st ! k) + count_list s k) \<le> rank (tasks (run E s st) ! k)"
proof (induction s arbitrary: st)
  case Nil
  then show ?case by simp
next
  case (Cons i s)
  then have k: "k < length (tasks (step E st i))" by simp
  note ih = Cons.IH [OF k]
  show ?case
  proof (cases "i = k")
    case True
    with step_rank_self [of k st E] Cons.prems ih show ?thesis by simp
  next
    case False
    with step_rank_other [of k st E i] Cons.prems ih show ?thesis by simp
  qed
qed

lemma join_ok_rejected:
  assumes "Rejected e \<in> set ts" and "join_ok ts j"
  shows "\<exists>e'. j = Some (Inl e')"
proof (cases j)
  case None
  with assms show ?thesis by (simp add: join_ok_def)
next
  case (Some res)
  with assms show ?thesis
    by (cases res) (auto simp: join_ok_def list_all_iff)
qed

lemma join_ok_settled:
  assumes "join_ok ts j" and "\<forall>k < length ts. rank (ts ! k) = 2"
  shows "j \<noteq> None"
proof
  assume "j = None"
  with assms(1) have no: "\<forall>e. Rejected e \<notin> set ts"
    and nf: "\<not> list_all (\<lambda>t. t = Fulfilled) ts"
    by (simp_all add: join_ok_def)
  from nf obtain k where k: "k < length ts" "ts ! k \<noteq> Fulfilled"
    by (auto simp: list_all_length)
  with assms(2) have "rank (ts ! k) = 2" by simp
  with k no show False
    by (cases "ts ! k") (auto simp: rank_def dest: nth_mem)
qed


subsection \<open>What the Indexer returns\<close>

lemma upsert_inv: "fan_inv E papers w (run E (schedule E) (start papers w))"
  by (intro fan_inv_run fan_inv_start)

lemma upsert_fst: "fst (upsertToPinecone E papers w) = joined (run E (schedule E) (start papers w))"
  by (simp add: upsertToPinecone_def Let_def)

lemma upsert_snd: "snd (upsertToPinecone E papers w) = fan_world (run E (schedule E) (start papers w))"
  by (simp add: upsertToPinecone_def Let_def)

lemma upsert_success_all:
  assumes "fst (upsertToPinecone E papers w) = Some (Inr u)"
  shows "\<forall>p \<in> set papers. \<not> op_fails E p \<and> paper_id p \<in> dom (index (snd (upsertToPinecone E papers w)))"
proof
  fix p assume "p \<in> set papers"
  then obtain k where k: "k < length papers" "papers ! k = p" by (auto simp: in_set_conv_nth)
  let ?st = "run E (schedule E) (start papers w)"
  have inv: "fan_inv E papers w ?st" by (rule upsert_inv)
  then have all2: "list_all2 (task_ok E (index (fan_world ?st))) papers (tasks ?st)"
    by (simp add: fan_inv_def)
  from inv assms have "list_all (\<lambda>t. t = Fulfilled) (tasks ?st)"
    by (simp add: fan_inv_def join_ok_def upsert_fst)
  moreover have "k < length (tasks ?st)" using k all2 by (simp add: list_all2_lengthD)
  ultimately have "tasks ?st ! k = Fulfilled" by (simp add: list_all_length)
  moreover have "task_ok E (index (fan_world ?st)) (papers ! k) (tasks ?st ! k)"
    using all2 k(1) by (rule list_all2_nthD)
  ultimately show "\<not> op_fails E p \<and> paper_id p \<in> dom (index (snd (upsertToPinecone E papers w)))"
    using k by (simp add: task_ok_def upsert_snd)
qed

lemma upsert_failure_some:
  assumes "fst (upsertToPinecone E papers w) = Some (Inl e)"
  shows "\<exists>p \<in> set papers. op_fails E p"
proof -
  let ?st = "run E (schedule E) (start papers w)"
  have inv: "fan_inv E papers w ?st" by (rule upsert_inv)
  then have all2: "list_all2 (task_ok E (index (fan_world ?st))) papers (tasks ?st)"
    by (simp add: fan_inv_def)
  from inv assms have "Rejected e \<in> set (tasks ?st)"
    by (simp add: fan_inv_def join_ok_def upsert_fst)
  then obtain k where k: "k < length (tasks ?st)" "tasks ?st ! k = Rejected e"
    by (auto simp: in_set_conv_nth)
  then have "task_ok E (index (fan_world ?st)) (papers ! k) (Rejected e)"
    using all2 by (auto simp: list_all2_conv_all_nth)
  then have "op_fails E (papers ! k)" by (simp add: task_ok_def)
  moreover have "papers ! k \<in> set papers" using k all2 by (simp add: list_all2_lengthD)
  ultimately show ?thesis by blast
qed

lemma rank_le: "rank t \<le> 2"
  by (simp add: rank_def split: task.splits)

lemma upsert_settles:
  assumes "complete (schedule E) (length papers)"
  shows "fst (upsertToPinecone E papers w) \<noteq> None"
proof -
  let ?st = "run E (schedule E) (start papers w)"
  have inv: "fan_inv E papers w ?st" by (rule upsert_inv)
  have "\<forall>k < length (tasks ?st). rank (tasks ?st ! k) = 2"
  proof (intro allI impI)
    fix k assume "k < length (tasks ?st)"
    then have k: "k < length papers" by (simp add: start_def)
    then have "k < length (tasks (start papers w))" by (simp add: start_def)
    from run_rank [OF this, of "schedule E" E]
    have "min 2 (count_list (schedule E) k) \<le> rank (tasks ?st ! k)"
      using k by (simp add: start_def rank_def)
    moreover have "2 \<le> count_list (schedule E) k" using assms k by (simp add: complete_def)
    ultimately show "rank (tasks ?st ! k) = 2" using rank_le [of "tasks ?st ! k"] by simp
  qed
  with inv have "joined ?st \<noteq> None"
    by (intro join_ok_settled [of "tasks ?st"]) (simp_all add: fan_inv_def)
  then show ?thesis by (simp add: upsert_fst)
qed

lemma issued_le:
  "list_all2 (task_ok E ix) ps ts \<Longrightarrow>
   sum_list (map2 (issued E) ps ts) \<subseteq># mset (records_of E ps)"
proof (induction rule: list_all2_induct)
  case Nil
  then show ?case by (simp add: records_of_def)
next
  case (Cons p ps t ts)
  have "issued E p t \<subseteq># (case record_of E p of Inl e \<Rightarrow> {#} | Inr r \<Rightarrow> {#r#})"
    by (simp add: issued_def split: task.splits)
  moreover have "mset (records_of E (p # ps))
      = (case record_of E p of Inl e \<Rightarrow> {#} | Inr r \<Rightarrow> {#r#}) + mset (records_of E ps)"
    by (simp add: records_of_def split: sum.splits)
  ultimately show ?case using Cons.IH by (simp add: subset_mset.add_mono)
qed

lemma issued_all:
  "list_all2 (task_ok E ix) ps ts \<Longrightarrow> list_all (\<lambda>t. t = Fulfilled) ts \<Longrightarrow>
   sum_list (map2 (issued E) ps ts) = mset (records_of E ps) \<and> length (records_of E ps) = length ps"
proof (induction rule: list_all2_induct)
  case Nil
  then show ?case by (simp add: records_of_def)
next
  case (Cons p ps t ts)
  then have "t = Fulfilled" by simp
  with Cons.hyps obtain r where "record_of E p = Inr r"
    by (auto simp: task_ok_def op_fails_def split: sum.splits)
  with Cons show ?case by (simp add: records_of_def issued_def)
qed

lemma upsert_trace:
  "\<exists>us. trace (snd (upsertToPinecone E papers w))
        = trace w @ map (\<lambda>paper. EmbedContent (summary paper)) papers @ map Upsert us
      \<and> mset us \<subseteq># mset (records_of E papers)
      \<and> (fst (upsertToPinecone E papers w) = Some (Inr ())
           \<longrightarrow> mset us = mset (records_of E papers) \<and> length us = length papers)"
proof -
  let ?st = "run E (schedule E) (start papers w)"
  have inv: "fan_inv E papers w ?st" by (rule upsert_inv)
  then have all2: "list_all2 (task_ok E (index (fan_world ?st))) papers (tasks ?st)"
    by (simp add: fan_inv_def)
  from inv obtain us where tr: "trace (fan_world ?st)
        = trace w @ map (\<lambda>paper. EmbedContent (summary paper)) papers @ map Upsert us"
    and ms: "mset us = sum_list (map2 (issued E) papers (tasks ?st))"
    by (auto simp: fan_inv_def)
  have sub: "mset us \<subseteq># mset (records_of E papers)"
    using issued_le [OF all2] ms by simp
  have full: "mset us = mset (records_of E papers) \<and> length us = length papers"
    if "joined ?st = Some (Inr ())"
  proof -
    from inv that have "list_all (\<lambda>t. t = Fulfilled) (tasks ?st)"
      by (simp add: fan_inv_def join_ok_def)
    from issued_all [OF all2 this] ms
    have m: "mset us = mset (records_of E papers)" and l: "length (records_of E papers) = length papers"
      by simp_all
    from m have "length us = length (records_of E papers)" by (rule mset_eq_length)
    with m l show ?thesis by simp
  qed
  from tr sub full show ?thesis
    by (intro exI [of _ us]) (simp add: upsert_fst upsert_snd)
qed

lemma step_index: "dom (index (fan_world st)) \<subseteq> dom (index (fan_world (step E st i)))"
  using advance_index [of "fan_world st" E "tasks st ! i"]
  by (simp add: step_def Let_def case_prod_beta)

lemma run_index: "dom (index (fan_world st)) \<subseteq> dom (index (fan_world (run E s st)))"
proof (induction s arbitrary: st)
  case Nil
  then show ?case by simp
next
  case (Cons i s)
  have "dom (index (fan_world st)) \<subseteq> dom (index (fan_world (step E st i)))"
    by (rule step_index)
  also have "\<dots> \<subseteq> dom (index (fan_world (run E s (step E st i))))"
    by (rule Cons)
  finally show ?case by simp
qed

lemma upsert_keeps:
  "schedule E = s1 @ s2 \<Longrightarrow>
   dom (index (fan_world (run E s1 (start papers w)))) \<subseteq> dom (index (snd (upsertToPinecone E papers w)))"
  by (simp add: upsert_snd run_append run_index)


text \<open>
  Claim C2. For every list of papers, every collaborators and every order in which the
  runtime settles the operations: the Indexer reports success only if no operation failed
  and the record of every paper is in the index, so with one failing embedding or upsert
  it never reports success; once every operation has settled it has reported, and it
  reports failure exactly when some operation failed. The embedding of every paper is
  requested once, all of them before any result is awaited, whatever fails; the upserts
  that follow are each the record of a paper, no record more often than papers yield it
  (nothing is retried), and on success they are exactly the records of the papers. A key
  that is in the index at any moment of the run is still there at the end, also after a
  failure: nothing is rolled back. The join is rejected as soon as one operation is.
\<close>

theorem indexing_all_or_nothing:
  "(fst (upsertToPinecone E papers w) = Some (Inr ()) \<longrightarrow>
      (\<forall>p \<in> set papers. \<not> op_fails E p
          \<and> paper_id p \<in> dom (index (snd (upsertToPinecone E papers w)))))
   \<and> ((\<exists>p \<in> set papers. op_fails E p) \<longrightarrow> fst (upsertToPinecone E papers w) \<noteq> Some (Inr ()))
   \<and> (complete (schedule E) (length papers) \<longrightarrow>
        fst (upsertToPinecone E papers w) \<noteq> None
        \<and> ((\<exists>e. fst (upsertToPinecone E papers w) = Some (Inl e))
             \<longleftrightarrow> (\<exists>p \<in> set papers. op_fails E p)))
   \<and> (\<exists>us. trace (snd (upsertToPinecone E papers w))
              = trace w @ map (\<lambda>paper. EmbedContent (summary paper)) papers @ map Upsert us
            \<and> mset us \<subseteq># mset (records_of E papers)
            \<and> (fst (upsertToPinecone E papers w) = Some (Inr ())
                 \<longrightarrow> mset us = mset (records_of E papers) \<and> length us = length papers))
   \<and> (\<forall>s1 s2. schedule E = s1 @ s2 \<longrightarrow>
        dom (index (fan_world (run E s1 (start papers w))))
          \<subseteq> dom (index (snd (upsertToPinecone E papers w))))
   \<and> (\<forall>s. (\<exists>e. Rejected e \<in> set (tasks (run E s (start papers w)))) \<longrightarrow>
        (\<exists>e. joined (run E s (start papers w)) = Some (Inl e)))"
proof -
  let ?res = "fst (upsertToPinecone E papers w)"
  have d: "\<forall>s. (\<exists>e. Rejected e \<in> set (tasks (run E s (start papers w)))) \<longrightarrow>
        (\<exists>e. joined (run E s (start papers w)) = Some (Inl e))"
  proof (intro allI impI)
    fix s assume "\<exists>e. Rejected e \<in> set (tasks (run E s (start papers w)))"
    then obtain e where "Rejected e \<in> set (tasks (run E s (start papers w)))" ..
    moreover have "join_ok (tasks (run E s (start papers w))) (joined (run E s (start papers w)))"
      using fan_inv_run [OF fan_inv_start, of E papers w s] by (simp add: fan_inv_def)
    ultimately show "\<exists>e. joined (run E s (start papers w)) = Some (Inl e)"
      by (rule join_ok_rejected)
  qed
  have a: "?res = Some (Inr ()) \<longrightarrow>
      (\<forall>p \<in> set papers. \<not> op_fails E p
          \<and> paper_id p \<in> dom (index (snd (upsertToPinecone E papers w))))"
    using upsert_success_all [of E papers w "()"] by blast
  then have b: "(\<exists>p \<in> set papers. op_fails E p) \<longrightarrow> ?res \<noteq> Some (Inr ())"
    by blast
  have c: "?res \<noteq> None \<and> ((\<exists>e. ?res = Some (Inl e)) \<longleftrightarrow> (\<exists>p \<in> set papers. op_fails E p))"
    if "complete (schedule E) (length papers)"
  proof -
    from that have n: "?res \<noteq> None" by (rule upsert_settles)
    have "\<exists>e. ?res = Some (Inl e)" if "\<exists>p \<in> set papers. op_fails E p"
    proof -
      from b that have "?res \<noteq> Some (Inr ())" by blast
      with n obtain x where x: "?res = Some x" "x \<noteq> Inr ()" by (cases ?res) auto
      then show ?thesis by (cases x) simp_all
    qed
    with n upsert_failure_some [of E papers w] show ?thesis by blast
  qed
  from a b c d upsert_trace [of E papers w] upsert_keeps [of E _ _ papers w]
  show ?thesis by blast
qed

lemmas example_unfold =
  upsertToPinecone_def example_env_def start_def step_def settle_def Let_def
  example_paper_def example_paper_no_abstract_def build_record_def categories_of_def
  authors_of_def summary_value_def log_event_def empty_world_def

theorem indexing_all_or_nothing_witness:
  "op_fails (example_env Missing) example_paper_no_abstract
   \<and> complete (schedule (example_env Missing)) 2
   \<and> fst (upsertToPinecone (example_env Missing) [example_paper, example_paper_no_abstract] empty_world)
       = Some (Inl (Thrown ''empty content''))
   \<and> index (snd (upsertToPinecone (example_env Missing) [example_paper, example_paper_no_abstract]
         empty_world)) (paper_id example_paper) \<noteq> None
   \<and> trace (snd (upsertToPinecone (example_env Missing) [example_paper, example_paper_no_abstract]
         empty_world))
       = [EmbedContent (Some ''We study attention.''), EmbedContent None,
          Upsert \<lparr>rec_id = ''http://arxiv.org/abs/2401.00001v1'', rec_values = [1, 0],
             rec_metadata = \<lparr>m_title = JString ''Attention for series'',
               m_abstract = JString ''We study attention.'', m_authors = JString ''Ada'',
               m_categories = JString ''cs.LG'', m_published = JString ''2024-01-01T00:00:00Z''\<rparr>\<rparr>]
   \<and> fst (upsertToPinecone (example_env Missing) [example_paper] empty_world) = Some (Inr ())
   \<and> index (snd (upsertToPinecone (example_env Missing) [example_paper] empty_world))
        (paper_id example_paper) \<noteq> None"
proof -
  let ?E = "example_env Missing"
  let ?ps = "[example_paper, example_paper_no_abstract]"
  have f: "op_fails ?E example_paper_no_abstract"
    by (simp add: op_fails_def record_of_def example_env_def example_paper_no_abstract_def)
  have c: "complete (schedule ?E) (length ?ps)"
    by (simp add: complete_def example_env_def less_Suc_eq numeral_2_eq_2)
  from indexing_all_or_nothing [of ?E ?ps empty_world] f c
  obtain e where "fst (upsertToPinecone ?E ?ps empty_world) = Some (Inl e)" by auto
  moreover have "fst (upsertToPinecone ?E ?ps empty_world) = Some (Inl (Thrown ''empty content''))"
    by (simp add: example_unfold)
  moreover have "index (snd (upsertToPinecone ?E ?ps empty_world)) (paper_id example_paper) \<noteq> None"
    by (simp add: example_unfold)
  moreover have "trace (snd (upsertToPinecone ?E ?ps empty_world))
       = [EmbedContent (Some ''We study attention.''), EmbedContent None,
          Upsert \<lparr>rec_id = ''http://arxiv.org/abs/2401.00001v1'', rec_values = [1, 0],
             rec_metadata = \<lparr>m_title = JString ''Attention for series'',
               m_abstract = JString ''We study attention.'', m_authors = JString ''Ada'',
               m_categories = JString ''cs.LG'', m_published = JString ''2024-01-01T00:00:00Z''\<rparr>\<rparr>]"
    by (simp add: example_unfold)
  moreover have s: "fst (upsertToPinecone ?E [example_paper] empty_world) = Some (Inr ())"
    by (simp add: example_unfold)
  moreover have "index (snd (upsertToPinecone ?E [example_paper] empty_world))
        (paper_id example_paper) \<noteq> None"
    using indexing_all_or_nothing [of ?E "[example_paper]" empty_world] s by auto
  moreover have "complete (schedule ?E) 2"
    by (simp add: complete_def example_env_def less_Suc_eq numeral_2_eq_2)
  ultimately show ?thesis using f by simp
qed

section \<open>The handler\<close>

subsection \<open>The stages, seen from the handler\<close>

lemma fetch_snd: "snd (fetchArxivPapers E kw w) = log_event (Fetch (fetchUrl E kw)) w"
  by (simp add: fetchArxivPapers_def Let_def split: sum.splits option.splits)

lemma fetch_fst: "fst (fetchArxivPapers E kw w) = fst (fetchArxivPapers E kw w')"
  by (simp add: fetchArxivPapers_def Let_def split: sum.splits option.splits)

lemma fetch_pair:
  "fst (fetchArxivPapers E kw wa) = r \<Longrightarrow>
   fetchArxivPapers E kw w = (r, log_event (Fetch (fetchUrl E kw)) w)"
  using fetch_fst [of E kw w wa] fetch_snd [of E kw w] by (simp add: prod_eq_iff)

lemma advance_fst: "fst (advance E t w) = fst (advance E t w')"
  by (cases t) (simp_all split: sum.splits option.splits)

lemma step_same:
  assumes "tasks st = tasks st'" "joined st = joined st'"
  shows "tasks (step E st i) = tasks (step E st' i) \<and> joined (step E st i) = joined (step E st' i)"
  using assms advance_fst [of E "tasks st' ! i" "fan_world st" "fan_world st'"]
  by (simp add: step_def Let_def case_prod_beta)

lemma run_same:
  "tasks st = tasks st' \<Longrightarrow> joined st = joined st' \<Longrightarrow>
   tasks (run E s st) = tasks (run E s st') \<and> joined (run E s st) = joined (run E s st')"
proof (induction s arbitrary: st st')
  case Nil
  then show ?case by simp
next
  case (Cons i s)
  from step_same [OF Cons.prems, of E i]
  have "tasks (step E st i) = tasks (step E st' i)" "joined (step E st i) = joined (step E st' i)"
    by simp_all
  from Cons.IH [OF this] show ?case by simp
qed

lemma upsert_fst_world: "fst (upsertToPinecone E papers w) = fst (upsertToPinecone E papers w')"
  using run_same [of "start papers w" "start papers w'" E "schedule E"]
  by (simp add: upsert_fst start_def)

lemma map_result_all2:
  "map_result f xs = Inr ys \<Longrightarrow> list_all2 (\<lambda>x y. f x = Inr y) xs ys"
  by (induction xs arbitrary: ys) (auto split: sum.splits)

lemma search_trace:
  "trace (snd (performVectorSearch E q w))
     = trace w @ EmbedContent (Some q)
         # (case embedContent E (Some q) of Inl e \<Rightarrow> [] | Inr v \<Rightarrow> [Query (search_request v)])"
  by (simp add: performVectorSearch_def Let_def log_event_def split: sum.splits)

lemma search_scored:
  assumes "fst (performVectorSearch E q w) = Inr rel"
  shows "\<forall>r \<in> set rel. similarity r \<noteq> None"
proof -
  from assms obtain v ms where "embedContent E (Some q) = Inr v"
    and "index_query E (index w) (search_request v) = Inr ms"
    and m: "map_result to_relevant (filter usable ms) = Inr rel"
    by (auto simp: performVectorSearch_def Let_def log_event_def split: sum.splits)
  from map_result_all2 [OF m] have "map similarity rel = map score (filter usable ms)"
    by (rule list_all2_similarity)
  then have "set (map similarity rel) \<subseteq> score ` {m. usable m}" by auto
  then show ?thesis by (auto simp: usable_def)
qed

lemma search_embedded:
  "fst (performVectorSearch E q w) = Inr rel \<Longrightarrow> \<exists>v. embedContent E (Some q) = Inr v"
  by (auto simp: performVectorSearch_def Let_def split: sum.splits)

lemma render_all:
  assumes "\<forall>p \<in> set ps. similarity p \<noteq> None"
  shows "\<exists>segs. map_result (render E) ps = Inr segs \<and> list_all2 (\<lambda>p s. render E p = Inr s) ps segs"
proof -
  have "\<forall>p \<in> set ps. \<exists>s. render E p = Inr s"
    using assms by (auto simp: render_def split: option.splits)
  then show ?thesis by (rule map_result_total)
qed

lemma generate_segments:
  "map_result (render E) ps = Inr segs \<Longrightarrow>
   generateAnswer E q ps w
     = (generateContent E (answerPrompt q (join (nl @ nl) segs)),
        log_event (GenerateContent (answerPrompt q (join (nl @ nl) segs))) w)"
  by (simp add: generateAnswer_def Let_def)

subsection \<open>The handler, path by path\<close>

lemma GET_keywords_failed:
  "generateContent E (keywordsPrompt (userQuery_of param)) = Inl e \<Longrightarrow>
   GET E param w0
     = (Some failure_response, log_event (GenerateContent (keywordsPrompt (userQuery_of param))) w0)"
  by (simp add: GET_def extractKeywords_def Let_def)

lemma GET_fetch_failed:
  assumes "generateContent E (keywordsPrompt (userQuery_of param)) = Inr kw"
    and "fst (fetchArxivPapers E kw wa) = Inl e"
  shows "GET E param w0 = (Some failure_response, world_fetched E (userQuery_of param) kw w0)"
  using assms(1) fetch_pair [OF assms(2)]
  by (simp add: GET_def extractKeywords_def world_fetched_def Let_def)

lemma GET_no_papers:
  assumes "generateContent E (keywordsPrompt (userQuery_of param)) = Inr kw"
    and "fst (fetchArxivPapers E kw wa) = Inr []"
  shows "GET E param w0
     = ((case generateContent E (noResultsPrompt (userQuery_of param)) of
           Inl e \<Rightarrow> Some failure_response
         | Inr a \<Rightarrow> Some (json_ok a kw [])),
        log_event (GenerateContent (noResultsPrompt (userQuery_of param)))
          (world_fetched E (userQuery_of param) kw w0))"
proof (cases "generateContent E (noResultsPrompt (userQuery_of param))")
  case (Inl e)
  with assms(1) fetch_pair [OF assms(2)] show ?thesis
    by (simp add: GET_def extractKeywords_def world_fetched_def generateNoResultsAnswer_def Let_def)
next
  case (Inr a)
  with assms(1) fetch_pair [OF assms(2)] show ?thesis
    by (simp add: GET_def extractKeywords_def world_fetched_def generateNoResultsAnswer_def Let_def)
qed

lemma GET_after_fetch:
  assumes "generateContent E (keywordsPrompt (userQuery_of param)) = Inr kw"
    and "fst (fetchArxivPapers E kw wa) = Inr papers" and "papers \<noteq> []"
  shows "GET E param w0
     = (case upsertToPinecone E papers (world_fetched E (userQuery_of param) kw w0) of
          (None, w3) \<Rightarrow> (None, w3)
        | (Some (Inl e), w3) \<Rightarrow> (Some failure_response, w3)
        | (Some (Inr u), w3) \<Rightarrow>
            (case performVectorSearch E (userQuery_of param) w3 of
               (Inl e, w4) \<Rightarrow> (Some failure_response, w4)
             | (Inr relevantPapers, w4) \<Rightarrow>
                 (case generateAnswer E (userQuery_of param) relevantPapers w4 of
                    (Inl e, w5) \<Rightarrow> (Some failure_response, w5)
                  | (Inr answer, w5) \<Rightarrow> (Some (json_ok answer kw papers), w5))))"
  using assms(1,3) fetch_pair [OF assms(2)]
  by (simp add: GET_def extractKeywords_def world_fetched_def Let_def)

lemma upsert_pair:
  "fst (upsertToPinecone E papers wb) = j \<Longrightarrow>
   upsertToPinecone E papers (world_fetched E uq kw w0) = (j, world_indexed E uq kw papers w0)"
  using upsert_fst_world [of E papers "world_fetched E uq kw w0" wb]
  by (simp add: world_indexed_def prod_eq_iff)

lemma GET_index_hangs:
  assumes "generateContent E (keywordsPrompt (userQuery_of param)) = Inr kw"
    and "fst (fetchArxivPapers E kw wa) = Inr papers" and "papers \<noteq> []"
    and "fst (upsertToPinecone E papers wb) = None"
  shows "GET E param w0 = (None, world_indexed E (userQuery_of param) kw papers w0)"
  by (simp add: GET_after_fetch [OF assms(1-3)] upsert_pair [OF assms(4)])

lemma GET_index_failed:
  assumes "generateContent E (keywordsPrompt (userQuery_of param)) = Inr kw"
    and "fst (fetchArxivPapers E kw wa) = Inr papers" and "papers \<noteq> []"
    and "fst (upsertToPinecone E papers wb) = Some (Inl e)"
  shows "GET E param w0
     = (Some failure_response, world_indexed E (userQuery_of param) kw papers w0)"
  by (simp add: GET_after_fetch [OF assms(1-3)] upsert_pair [OF assms(4)])

lemma GET_indexed:
  assumes "generateContent E (keywordsPrompt (userQuery_of param)) = Inr kw"
    and "fst (fetchArxivPapers E kw wa) = Inr papers" and "papers \<noteq> []"
    and "fst (upsertToPinecone E papers wb) = Some (Inr ())"
  shows "GET E param w0
     = (case performVectorSearch E (userQuery_of param)
               (world_indexed E (userQuery_of param) kw papers w0) of
          (Inl e, w4) \<Rightarrow> (Some failure_response, w4)
        | (Inr relevantPapers, w4) \<Rightarrow>
            (case generateAnswer E (userQuery_of param) relevantPapers w4 of
               (Inl e, w5) \<Rightarrow> (Some failure_response, w5)
             | (Inr answer, w5) \<Rightarrow> (Some (json_ok answer kw papers), w5)))"
  by (simp add: GET_after_fetch [OF assms(1-3)] upsert_pair [OF assms(4)])


lemma generate_fst: "fst (generateAnswer E q ps w) = fst (generateAnswer E q ps w')"
  by (simp add: generateAnswer_def Let_def split: sum.splits)

lemma world_fetched_trace:
  "trace (world_fetched E uq kw w0)
     = trace w0 @ [GenerateContent (keywordsPrompt uq), Fetch (fetchUrl E kw)]"
  by (simp add: world_fetched_def log_event_def)

lemma world_indexed_trace:
  "\<exists>us. trace (world_indexed E uq kw papers w0)
        = trace w0 @ [GenerateContent (keywordsPrompt uq), Fetch (fetchUrl E kw)]
          @ map (\<lambda>paper. EmbedContent (summary paper)) papers @ map Upsert us
      \<and> mset us \<subseteq># mset (records_of E papers)
      \<and> (fst (upsertToPinecone E papers wb) = Some (Inr ())
           \<longrightarrow> mset us = mset (records_of E papers) \<and> length us = length papers)"
  using upsert_trace [of E papers "world_fetched E uq kw w0"]
    upsert_fst_world [of E papers "world_fetched E uq kw w0" wb]
  by (simp add: world_indexed_def world_fetched_trace)

text \<open>The path on which the index is filled: search, then grounded synthesis.\<close>

lemma GET_search_failed:
  assumes "generateContent E (keywordsPrompt (userQuery_of param)) = Inr kw"
    and "fst (fetchArxivPapers E kw wa) = Inr papers" and "papers \<noteq> []"
    and "fst (upsertToPinecone E papers wb) = Some (Inr ())"
    and "fst (performVectorSearch E (userQuery_of param)
               (world_indexed E (userQuery_of param) kw papers w0)) = Inl e"
  shows "GET E param w0
     = (Some failure_response,
        snd (performVectorSearch E (userQuery_of param)
               (world_indexed E (userQuery_of param) kw papers w0)))"
proof -
  let ?s = "performVectorSearch E (userQuery_of param) (world_indexed E (userQuery_of param) kw papers w0)"
  from assms(5) obtain w4 where "?s = (Inl e, w4)" by (cases ?s) simp
  then show ?thesis by (simp add: GET_indexed [OF assms(1-4)])
qed

lemma GET_searched:
  assumes "generateContent E (keywordsPrompt (userQuery_of param)) = Inr kw"
    and "fst (fetchArxivPapers E kw wa) = Inr papers" and "papers \<noteq> []"
    and "fst (upsertToPinecone E papers wb) = Some (Inr ())"
    and "fst (performVectorSearch E (userQuery_of param)
               (world_indexed E (userQuery_of param) kw papers w0)) = Inr rel"
  shows "\<exists>v segs. embedContent E (Some (userQuery_of param)) = Inr v
      \<and> list_all2 (\<lambda>p s. render E p = Inr s) rel segs
      \<and> GET E param w0
        = ((case generateContent E (answerPrompt (userQuery_of param) (join (nl @ nl) segs)) of
              Inl e \<Rightarrow> Some failure_response
            | Inr answer \<Rightarrow> Some (json_ok answer kw papers)),
           (world_indexed E (userQuery_of param) kw papers w0)
             \<lparr>trace := trace (world_indexed E (userQuery_of param) kw papers w0)
                @ [EmbedContent (Some (userQuery_of param)), Query (search_request v),
                   GenerateContent (answerPrompt (userQuery_of param) (join (nl @ nl) segs))]\<rparr>)"
proof -
  let ?uq = "userQuery_of param"
  let ?w3 = "world_indexed E ?uq kw papers w0"
  let ?s = "performVectorSearch E ?uq ?w3"
  from search_embedded [OF assms(5)] obtain v where v: "embedContent E (Some ?uq) = Inr v" ..
  from render_all [OF search_scored [OF assms(5)], of E] obtain segs
    where segs: "map_result (render E) rel = Inr segs"
      and all2: "list_all2 (\<lambda>p s. render E p = Inr s) rel segs"
    by blast
  have "snd ?s = ?w3\<lparr>trace := trace ?w3 @ [EmbedContent (Some ?uq), Query (search_request v)]\<rparr>"
    using v by (simp add: performVectorSearch_def Let_def log_event_def split: sum.splits)
  with assms(5) have s: "?s
      = (Inr rel, ?w3\<lparr>trace := trace ?w3 @ [EmbedContent (Some ?uq), Query (search_request v)]\<rparr>)"
    by (simp add: prod_eq_iff)
  have "GET E param w0
        = ((case generateContent E (answerPrompt ?uq (join (nl @ nl) segs)) of
              Inl e \<Rightarrow> Some failure_response
            | Inr answer \<Rightarrow> Some (json_ok answer kw papers)),
           ?w3\<lparr>trace := trace ?w3 @ [EmbedContent (Some ?uq), Query (search_request v),
                   GenerateContent (answerPrompt ?uq (join (nl @ nl) segs))]\<rparr>)"
    unfolding GET_indexed [OF assms(1-4)] s
    by (simp add: generate_segments [OF segs] log_event_def split: sum.splits)
  with v all2 show ?thesis by blast
qed


text \<open>
  Claim C1. Let the keywords be extracted and the fetch return a list of papers. If the
  list is empty, the calls of the handler are exactly: the keyword generation, the fetch,
  and the generation with the no-results prompt; no embedding, no upsert and no query
  of the index is issued. If the list is not empty, the Indexer runs first (the embedding
  requests of all papers, then upserts); if it does not succeed nothing follows; if it
  succeeds the Searcher runs (embedding of the question, then the query), and if the
  Searcher returns papers the generation with the grounded prompt over them is the last
  call.
\<close>

theorem zero_results_short_circuit:
  assumes kw: "generateContent E (keywordsPrompt (userQuery_of param)) = Inr kw"
    and f: "fst (fetchArxivPapers E kw wa) = Inr papers"
  shows "(papers = [] \<longrightarrow>
            trace (snd (GET E param w0))
              = trace w0 @ [GenerateContent (keywordsPrompt (userQuery_of param)),
                            Fetch (fetchUrl E kw),
                            GenerateContent (noResultsPrompt (userQuery_of param))])
       \<and> (papers \<noteq> [] \<longrightarrow>
            (\<exists>us. trace (world_indexed E (userQuery_of param) kw papers w0)
                    = trace w0 @ [GenerateContent (keywordsPrompt (userQuery_of param)),
                                  Fetch (fetchUrl E kw)]
                      @ map (\<lambda>paper. EmbedContent (summary paper)) papers @ map Upsert us)
          \<and> (fst (upsertToPinecone E papers wb) \<noteq> Some (Inr ()) \<longrightarrow>
                trace (snd (GET E param w0))
                  = trace (world_indexed E (userQuery_of param) kw papers w0))
          \<and> (fst (upsertToPinecone E papers wb) = Some (Inr ()) \<longrightarrow>
               (case fst (performVectorSearch E (userQuery_of param)
                            (world_indexed E (userQuery_of param) kw papers w0)) of
                  Inl e \<Rightarrow>
                    trace (snd (GET E param w0))
                      = trace (world_indexed E (userQuery_of param) kw papers w0)
                        @ EmbedContent (Some (userQuery_of param))
                          # (case embedContent E (Some (userQuery_of param)) of
                               Inl e \<Rightarrow> [] | Inr v \<Rightarrow> [Query (search_request v)])
                | Inr rel \<Rightarrow>
                    (\<exists>v segs. embedContent E (Some (userQuery_of param)) = Inr v
                       \<and> list_all2 (\<lambda>p s. render E p = Inr s) rel segs
                       \<and> trace (snd (GET E param w0))
                           = trace (world_indexed E (userQuery_of param) kw papers w0)
                             @ [EmbedContent (Some (userQuery_of param)),
                                Query (search_request v),
                                GenerateContent
                                  (answerPrompt (userQuery_of param) (join (nl @ nl) segs))]))))"
proof -
  let ?uq = "userQuery_of param"
  let ?w3 = "world_indexed E ?uq kw papers w0"
  have empty: "trace (snd (GET E param w0))
        = trace w0 @ [GenerateContent (keywordsPrompt ?uq), Fetch (fetchUrl E kw),
                      GenerateContent (noResultsPrompt ?uq)]"
    if "papers = []"
    using GET_no_papers [OF kw, of wa w0] f that
    by (simp add: world_fetched_trace log_event_def)
  have ix: "\<exists>us. trace ?w3
        = trace w0 @ [GenerateContent (keywordsPrompt ?uq), Fetch (fetchUrl E kw)]
          @ map (\<lambda>paper. EmbedContent (summary paper)) papers @ map Upsert us"
    using world_indexed_trace [of E ?uq kw papers w0 wb] by blast
  have stop: "trace (snd (GET E param w0)) = trace ?w3"
    if ne: "papers \<noteq> []" and u: "fst (upsertToPinecone E papers wb) \<noteq> Some (Inr ())"
  proof (cases "fst (upsertToPinecone E papers wb)")
    case None
    from GET_index_hangs [OF kw f ne None] show ?thesis by simp
  next
    case (Some r)
    with u obtain e where "fst (upsertToPinecone E papers wb) = Some (Inl e)"
      by (cases r) simp_all
    from GET_index_failed [OF kw f ne this] show ?thesis by simp
  qed
  have go: "case fst (performVectorSearch E ?uq ?w3) of
                  Inl e \<Rightarrow>
                    trace (snd (GET E param w0))
                      = trace ?w3 @ EmbedContent (Some ?uq)
                          # (case embedContent E (Some ?uq) of
                               Inl e \<Rightarrow> [] | Inr v \<Rightarrow> [Query (search_request v)])
                | Inr rel \<Rightarrow>
                    (\<exists>v segs. embedContent E (Some ?uq) = Inr v
                       \<and> list_all2 (\<lambda>p s. render E p = Inr s) rel segs
                       \<and> trace (snd (GET E param w0))
                           = trace ?w3 @ [EmbedContent (Some ?uq), Query (search_request v),
                                GenerateContent (answerPrompt ?uq (join (nl @ nl) segs))])"
    if ne: "papers \<noteq> []" and u: "fst (upsertToPinecone E papers wb) = Some (Inr ())"
  proof (cases "fst (performVectorSearch E ?uq ?w3)")
    case (Inl e)
    from GET_search_failed [OF kw f ne u Inl] Inl show ?thesis
      by (simp add: search_trace)
  next
    case (Inr rel)
    from GET_searched [OF kw f ne u Inr] obtain v segs
      where "embedContent E (Some ?uq) = Inr v"
        and "list_all2 (\<lambda>p s. render E p = Inr s) rel segs"
        and "trace (snd (GET E param w0))
             = trace ?w3 @ [EmbedContent (Some ?uq), Query (search_request v),
                 GenerateContent (answerPrompt ?uq (join (nl @ nl) segs))]"
      by auto
    with Inr show ?thesis by auto
  qed
  from empty ix stop go show ?thesis by blast
qed


lemma example_keywords: "generateContent (example_env fld) prompt = Inr ''some text''"
  by (simp add: example_env_def)

lemma example_fetch:
  "fst (fetchArxivPapers (example_env fld) kw w) = Inr (entries_of \<lparr>entry = fld\<rparr>)"
  by (simp add: fetchArxivPapers_def example_env_def Let_def)

lemma example_search:
  "fst (performVectorSearch (example_env fld) q w) = Inr example_relevant"
  by (simp add: performVectorSearch_def example_env_def Let_def example_matches_def usable_def
        to_relevant_def example_relevant_def)

lemma example_segments:
  "list_all2 (\<lambda>p s. render (example_env fld) p = Inr s) example_relevant segs \<Longrightarrow>
   segs = [''Title: T1'' @ nl @ ''Authors: Ada'' @ nl @ ''Categories: cs.LG,stat.ML'' @ nl
          @ ''Published: 2024'' @ nl @ ''Similarity: 0.9000'' @ nl @ ''Abstract: A1'',
       ''Title: T4'' @ nl @ ''Authors: Di, Ed'' @ nl @ ''Categories: cs.AI'' @ nl
          @ ''Published: 2022'' @ nl @ ''Similarity: 0.9000'' @ nl @ ''Abstract: undefined'']"
  by (simp add: example_relevant_def list_all2_Cons1 render_scored [where s = "9 / 10"]
          render_scored [where s = "1 / 2"] example_env_def)

theorem zero_results_short_circuit_witness:
  "trace (snd (GET (example_env Missing) None empty_world))
     = [GenerateContent (keywordsPrompt ''Can cows grow''),
        Fetch (fetchUrl (example_env Missing) ''some text''),
        GenerateContent (noResultsPrompt ''Can cows grow'')]
   \<and> trace (snd (GET (example_env (Single example_paper)) (Some ''q'') empty_world))
     = [GenerateContent (keywordsPrompt ''q''),
        Fetch (fetchUrl (example_env (Single example_paper)) ''some text''),
        EmbedContent (Some ''We study attention.''),
        Upsert \<lparr>rec_id = ''http://arxiv.org/abs/2401.00001v1'', rec_values = [1, 0],
             rec_metadata = \<lparr>m_title = JString ''Attention for series'',
               m_abstract = JString ''We study attention.'', m_authors = JString ''Ada'',
               m_categories = JString ''cs.LG'', m_published = JString ''2024-01-01T00:00:00Z''\<rparr>\<rparr>,
        EmbedContent (Some ''q''),
        Query \<lparr>q_vector = [1, 0], topK = 5, includeMetadata = True, includeValues = True\<rparr>,
        GenerateContent (answerPrompt ''q''
          (''Title: T1'' @ nl @ ''Authors: Ada'' @ nl @ ''Categories: cs.LG,stat.ML'' @ nl
           @ ''Published: 2024'' @ nl @ ''Similarity: 0.9000'' @ nl @ ''Abstract: A1''
           @ nl @ nl
           @ ''Title: T4'' @ nl @ ''Authors: Di, Ed'' @ nl @ ''Categories: cs.AI'' @ nl
           @ ''Published: 2022'' @ nl @ ''Similarity: 0.9000'' @ nl @ ''Abstract: undefined''))]"
proof -
  let ?E0 = "example_env Missing" and ?E1 = "example_env (Single example_paper)"
  have q0: "userQuery_of None = ''Can cows grow''" and q1: "userQuery_of (Some ''q'') = ''q''"
    by (simp_all add: userQuery_of_def)
  have f0: "fst (fetchArxivPapers ?E0 ''some text'' empty_world) = Inr []"
    by (simp add: example_fetch entries_of_def)
  from zero_results_short_circuit [OF example_keywords f0, of None empty_world empty_world]
  have a: "trace (snd (GET ?E0 None empty_world))
     = [GenerateContent (keywordsPrompt ''Can cows grow''), Fetch (fetchUrl ?E0 ''some text''),
        GenerateContent (noResultsPrompt ''Can cows grow'')]"
    by (simp add: q0 empty_world_def)
  have f1: "fst (fetchArxivPapers ?E1 ''some text'' empty_world) = Inr [example_paper]"
    by (simp add: example_fetch entries_of_def)
  have u1: "upsertToPinecone ?E1 [example_paper]
        (world_fetched ?E1 ''q'' ''some text'' empty_world)
      = (Some (Inr ()),
         \<lparr>index = [''http://arxiv.org/abs/2401.00001v1'' \<mapsto>
             \<lparr>rec_id = ''http://arxiv.org/abs/2401.00001v1'', rec_values = [1, 0],
              rec_metadata = \<lparr>m_title = JString ''Attention for series'',
               m_abstract = JString ''We study attention.'', m_authors = JString ''Ada'',
               m_categories = JString ''cs.LG'', m_published = JString ''2024-01-01T00:00:00Z''\<rparr>\<rparr>],
          trace = [GenerateContent (keywordsPrompt ''q''), Fetch (fetchUrl ?E1 ''some text''),
            EmbedContent (Some ''We study attention.''),
            Upsert \<lparr>rec_id = ''http://arxiv.org/abs/2401.00001v1'', rec_values = [1, 0],
             rec_metadata = \<lparr>m_title = JString ''Attention for series'',
               m_abstract = JString ''We study attention.'', m_authors = JString ''Ada'',
               m_categories = JString ''cs.LG'', m_published = JString ''2024-01-01T00:00:00Z''\<rparr>\<rparr>]\<rparr>)"
    by (simp add: world_fetched_def example_unfold)
  then have ok: "fst (upsertToPinecone ?E1 [example_paper]
        (world_fetched ?E1 ''q'' ''some text'' empty_world)) = Some (Inr ())"
    by simp
  from zero_results_short_circuit [OF example_keywords f1,
      of "Some ''q''" empty_world "world_fetched ?E1 ''q'' ''some text'' empty_world"] ok
  obtain v segs where v: "embedContent ?E1 (Some ''q'') = Inr v"
    and all2: "list_all2 (\<lambda>p s. render ?E1 p = Inr s) example_relevant segs"
    and tr: "trace (snd (GET ?E1 (Some ''q'') empty_world))
        = trace (world_indexed ?E1 ''q'' ''some text'' [example_paper] empty_world)
          @ [EmbedContent (Some ''q''), Query (search_request v),
             GenerateContent (answerPrompt ''q'' (join (nl @ nl) segs))]"
    by (auto simp: q1 example_search)
  from v have v': "v = [1, 0]" by (simp add: example_env_def)
  have w3: "trace (world_indexed ?E1 ''q'' ''some text'' [example_paper] empty_world)
      = [GenerateContent (keywordsPrompt ''q''), Fetch (fetchUrl ?E1 ''some text''),
            EmbedContent (Some ''We study attention.''),
            Upsert \<lparr>rec_id = ''http://arxiv.org/abs/2401.00001v1'', rec_values = [1, 0],
             rec_metadata = \<lparr>m_title = JString ''Attention for series'',
               m_abstract = JString ''We study attention.'', m_authors = JString ''Ada'',
               m_categories = JString ''cs.LG'', m_published = JString ''2024-01-01T00:00:00Z''\<rparr>\<rparr>]"
    by (simp add: world_indexed_def u1)
  have b: "trace (snd (GET ?E1 (Some ''q'') empty_world))
     = [GenerateContent (keywordsPrompt ''q''), Fetch (fetchUrl ?E1 ''some text''),
        EmbedContent (Some ''We study attention.''),
        Upsert \<lparr>rec_id = ''http://arxiv.org/abs/2401.00001v1'', rec_values = [1, 0],
             rec_metadata = \<lparr>m_title = JString ''Attention for series'',
               m_abstract = JString ''We study attention.'', m_authors = JString ''Ada'',
               m_categories = JString ''cs.LG'', m_published = JString ''2024-01-01T00:00:00Z''\<rparr>\<rparr>,
        EmbedContent (Some ''q''),
        Query \<lparr>q_vector = [1, 0], topK = 5, includeMetadata = True, includeValues = True\<rparr>,
        GenerateContent (answerPrompt ''q''
          (''Title: T1'' @ nl @ ''Authors: Ada'' @ nl @ ''Categories: cs.LG,stat.ML'' @ nl
           @ ''Published: 2024'' @ nl @ ''Similarity: 0.9000'' @ nl @ ''Abstract: A1''
           @ nl @ nl
           @ ''Title: T4'' @ nl @ ''Authors: Di, Ed'' @ nl @ ''Categories: cs.AI'' @ nl
           @ ''Published: 2022'' @ nl @ ''Similarity: 0.9000'' @ nl @ ''Abstract: undefined''))]"
    unfolding tr w3 v' example_segments [OF all2]
    by (simp add: search_request_def)
  from a b show ?thesis by simp
qed

lemma all2_map_result:
  "list_all2 (\<lambda>x y. f x = Inr y) xs ys \<Longrightarrow> map_result f xs = Inr ys"
  by (induction rule: list_all2_induct) simp_all

lemma GET_answered:
  assumes "generateContent E (keywordsPrompt (userQuery_of param)) = Inr kw"
    and "fst (fetchArxivPapers E kw wa) = Inr papers" and "papers \<noteq> []"
    and "fst (upsertToPinecone E papers wb) = Some (Inr ())"
    and "fst (performVectorSearch E (userQuery_of param)
               (world_indexed E (userQuery_of param) kw papers w0)) = Inr rel"
  shows "fst (GET E param w0)
     = (case fst (generateAnswer E (userQuery_of param) rel wc) of
          Inl e \<Rightarrow> Some failure_response
        | Inr answer \<Rightarrow> Some (json_ok answer kw papers))"
proof -
  from GET_searched [OF assms] obtain v segs
    where all2: "list_all2 (\<lambda>p s. render E p = Inr s) rel segs"
      and g: "fst (GET E param w0)
        = (case generateContent E (answerPrompt (userQuery_of param) (join (nl @ nl) segs)) of
              Inl e \<Rightarrow> Some failure_response
            | Inr answer \<Rightarrow> Some (json_ok answer kw papers))"
    by auto
  from all2 have "map_result (render E) rel = Inr segs" by (rule all2_map_result)
  from generate_segments [OF this, of "userQuery_of param" wc] g show ?thesis by simp
qed

lemma json_ok_not_failure: "json_ok a kw ps \<noteq> failure_response"
  by (simp add: json_ok_def failure_response_def)

lemma GET_response_cases:
  assumes r: "fst (GET E param w0) = Some r" and nf: "r \<noteq> failure_response"
  shows "\<exists>kw papers a. generateContent E (keywordsPrompt (userQuery_of param)) = Inr kw
      \<and> fst (fetchArxivPapers E kw w0) = Inr papers
      \<and> r = json_ok a kw papers
      \<and> (if papers = [] then generateContent E (noResultsPrompt (userQuery_of param)) = Inr a
         else fst (upsertToPinecone E papers w0) = Some (Inr ())
            \<and> (\<exists>rel. fst (performVectorSearch E (userQuery_of param)
                            (world_indexed E (userQuery_of param) kw papers w0)) = Inr rel
                 \<and> fst (generateAnswer E (userQuery_of param) rel w0) = Inr a))"
proof (cases "generateContent E (keywordsPrompt (userQuery_of param))")
  case (Inl e)
  from GET_keywords_failed [OF Inl, of w0] r nf show ?thesis by simp
next
  case kw: (Inr kw)
  show ?thesis
  proof (cases "fst (fetchArxivPapers E kw w0)")
    case (Inl e)
    from GET_fetch_failed [OF kw Inl, of w0] r nf show ?thesis by simp
  next
    case f: (Inr papers)
    show ?thesis
    proof (cases "papers = []")
      case True
      with f have f0: "fst (fetchArxivPapers E kw w0) = Inr []" by simp
      show ?thesis
      proof (cases "generateContent E (noResultsPrompt (userQuery_of param))")
        case (Inl e)
        with GET_no_papers [OF kw f0, of w0] r nf show ?thesis by simp
      next
        case (Inr a)
        with GET_no_papers [OF kw f0, of w0] r have "r = json_ok a kw []" by simp
        with kw f True Inr show ?thesis by auto
      qed
    next
      case ne: False
      show ?thesis
      proof (cases "fst (upsertToPinecone E papers w0)")
        case None
        from GET_index_hangs [OF kw f ne None, of w0] r show ?thesis by simp
      next
        case (Some j)
        show ?thesis
        proof (cases j)
          case (Inl e)
          with Some have "fst (upsertToPinecone E papers w0) = Some (Inl e)" by simp
          from GET_index_failed [OF kw f ne this, of w0] r nf show ?thesis by simp
        next
          case (Inr u)
          with Some have u: "fst (upsertToPinecone E papers w0) = Some (Inr ())" by simp
          show ?thesis
          proof (cases "fst (performVectorSearch E (userQuery_of param)
                            (world_indexed E (userQuery_of param) kw papers w0))")
            case (Inl e)
            from GET_search_failed [OF kw f ne u Inl] r nf show ?thesis by simp
          next
            case s: (Inr rel)
            show ?thesis
            proof (cases "fst (generateAnswer E (userQuery_of param) rel w0)")
              case (Inl e)
              with GET_answered [OF kw f ne u s, of w0] r nf show ?thesis by simp
            next
              case (Inr a)
              with GET_answered [OF kw f ne u s, of w0] r have "r = json_ok a kw papers" by simp
              with kw f ne u s Inr show ?thesis by auto
            qed
          qed
        qed
      qed
    qed
  qed
qed


text \<open>
  Claim C9. Whichever stage fails (the keyword generation, the fetch, the no-results
  generation, the Indexer, the Searcher or the grounded generation), the response is the
  one generic failure response: status 500 with nothing but a fixed error message, in
  particular without the papers and without an answer. A response other than the generic
  failure is returned only when every stage of its path has succeeded.
\<close>

theorem failure_is_generic:
  "(\<forall>e. generateContent E (keywordsPrompt (userQuery_of param)) = Inl e \<longrightarrow>
       fst (GET E param w0) = Some failure_response)
   \<and> (\<forall>kw. generateContent E (keywordsPrompt (userQuery_of param)) = Inr kw \<longrightarrow>
        (\<forall>e. fst (fetchArxivPapers E kw w0) = Inl e \<longrightarrow>
             fst (GET E param w0) = Some failure_response)
      \<and> (\<forall>papers. fst (fetchArxivPapers E kw w0) = Inr papers \<longrightarrow>
           (papers = [] \<longrightarrow>
              (\<forall>e. generateContent E (noResultsPrompt (userQuery_of param)) = Inl e \<longrightarrow>
                   fst (GET E param w0) = Some failure_response))
         \<and> (papers \<noteq> [] \<longrightarrow>
              (\<forall>e. fst (upsertToPinecone E papers w0) = Some (Inl e) \<longrightarrow>
                   fst (GET E param w0) = Some failure_response)
            \<and> (fst (upsertToPinecone E papers w0) = Some (Inr ()) \<longrightarrow>
                 (\<forall>e. fst (performVectorSearch E (userQuery_of param)
                             (world_indexed E (userQuery_of param) kw papers w0)) = Inl e \<longrightarrow>
                      fst (GET E param w0) = Some failure_response)
               \<and> (\<forall>rel e. fst (performVectorSearch E (userQuery_of param)
                             (world_indexed E (userQuery_of param) kw papers w0)) = Inr rel
                        \<and> fst (generateAnswer E (userQuery_of param) rel w0) = Inl e \<longrightarrow>
                      fst (GET E param w0) = Some failure_response)))))
   \<and> (\<forall>r. fst (GET E param w0) = Some r \<and> r \<noteq> failure_response \<longrightarrow>
        (\<exists>kw papers a. generateContent E (keywordsPrompt (userQuery_of param)) = Inr kw
           \<and> fst (fetchArxivPapers E kw w0) = Inr papers
           \<and> r = json_ok a kw papers
           \<and> (if papers = [] then generateContent E (noResultsPrompt (userQuery_of param)) = Inr a
              else fst (upsertToPinecone E papers w0) = Some (Inr ())
                 \<and> (\<exists>rel. fst (performVectorSearch E (userQuery_of param)
                            (world_indexed E (userQuery_of param) kw papers w0)) = Inr rel
                      \<and> fst (generateAnswer E (userQuery_of param) rel w0) = Inr a))))
   \<and> status failure_response = 500
   \<and> body failure_response = [(''error'', JText ''An error occurred while processing the request'')]
   \<and> body_value failure_response ''papers'' = None
   \<and> body_value failure_response ''answer'' = None"
proof -
  let ?uq = "userQuery_of param"
  have a: "\<forall>e. generateContent E (keywordsPrompt ?uq) = Inl e \<longrightarrow>
       fst (GET E param w0) = Some failure_response"
    by (simp add: GET_keywords_failed)
  have b: "fst (GET E param w0) = Some failure_response"
    if "generateContent E (keywordsPrompt ?uq) = Inr kw" "fst (fetchArxivPapers E kw w0) = Inl e"
    for kw e
    using GET_fetch_failed [OF that, of w0] by simp
  have c: "fst (GET E param w0) = Some failure_response"
    if "generateContent E (keywordsPrompt ?uq) = Inr kw" "fst (fetchArxivPapers E kw w0) = Inr papers"
      "papers = []" "generateContent E (noResultsPrompt ?uq) = Inl e"
    for kw papers e
    using GET_no_papers [OF that(1), of w0 w0] that by simp
  have d: "fst (GET E param w0) = Some failure_response"
    if "generateContent E (keywordsPrompt ?uq) = Inr kw" "fst (fetchArxivPapers E kw w0) = Inr papers"
      "papers \<noteq> []" "fst (upsertToPinecone E papers w0) = Some (Inl e)"
    for kw papers e
    using GET_index_failed [OF that, of w0] by simp
  have e: "fst (GET E param w0) = Some failure_response"
    if "generateContent E (keywordsPrompt ?uq) = Inr kw" "fst (fetchArxivPapers E kw w0) = Inr papers"
      "papers \<noteq> []" "fst (upsertToPinecone E papers w0) = Some (Inr ())"
      "fst (performVectorSearch E ?uq (world_indexed E ?uq kw papers w0)) = Inl e"
    for kw papers e
    using GET_search_failed [OF that] by simp
  have f: "fst (GET E param w0) = Some failure_response"
    if "generateContent E (keywordsPrompt ?uq) = Inr kw" "fst (fetchArxivPapers E kw w0) = Inr papers"
      "papers \<noteq> []" "fst (upsertToPinecone E papers w0) = Some (Inr ())"
      "fst (performVectorSearch E ?uq (world_indexed E ?uq kw papers w0)) = Inr rel"
      "fst (generateAnswer E ?uq rel w0) = Inl e"
    for kw papers rel e
    using GET_answered [OF that(1-5), of w0] that(6) by simp
  have g: "\<forall>r. fst (GET E param w0) = Some r \<and> r \<noteq> failure_response \<longrightarrow>
        (\<exists>kw papers a. generateContent E (keywordsPrompt ?uq) = Inr kw
           \<and> fst (fetchArxivPapers E kw w0) = Inr papers
           \<and> r = json_ok a kw papers
           \<and> (if papers = [] then generateContent E (noResultsPrompt ?uq) = Inr a
              else fst (upsertToPinecone E papers w0) = Some (Inr ())
                 \<and> (\<exists>rel. fst (performVectorSearch E ?uq (world_indexed E ?uq kw papers w0)) = Inr rel
                      \<and> fst (generateAnswer E ?uq rel w0) = Inr a)))"
    using GET_response_cases [of E param w0] by blast
  have h: "status failure_response = 500
      \<and> body failure_response = [(''error'', JText ''An error occurred while processing the request'')]
      \<and> body_value failure_response ''papers'' = None
      \<and> body_value failure_response ''answer'' = None"
    by (simp add: failure_response_def body_value_def)
  show ?thesis
    apply (intro conjI allI impI)
    using a b c d e f g h by blast+
qed


theorem failure_is_generic_witness:
  "fst (fetchArxivPapers (example_env (Many [example_paper, example_paper_no_abstract]))
         ''some text'' empty_world) = Inr [example_paper, example_paper_no_abstract]
   \<and> fst (upsertToPinecone (example_env (Many [example_paper, example_paper_no_abstract]))
         [example_paper, example_paper_no_abstract] empty_world)
       = Some (Inl (Thrown ''empty content''))
   \<and> fst (GET (example_env (Many [example_paper, example_paper_no_abstract])) (Some ''q'') empty_world)
       = Some \<lparr>status = 500,
               body = [(''error'', JText ''An error occurred while processing the request'')]\<rparr>"
proof -
  let ?ps = "[example_paper, example_paper_no_abstract]"
  let ?E = "example_env (Many ?ps)"
  have f: "fst (fetchArxivPapers ?E ''some text'' empty_world) = Inr ?ps"
    by (simp add: example_fetch entries_of_def)
  have u: "fst (upsertToPinecone ?E ?ps empty_world) = Some (Inl (Thrown ''empty content''))"
    by (simp add: example_unfold)
  have k: "generateContent ?E (keywordsPrompt (userQuery_of (Some ''q''))) = Inr ''some text''"
    by (rule example_keywords)
  from failure_is_generic [of ?E "Some ''q''" empty_world] k f u
  have "fst (GET ?E (Some ''q'') empty_world) = Some failure_response" by simp
  with f u show ?thesis by (simp add: failure_response_def)
qed

text \<open>
  Claim C5 as stated fails. With a fetch that returns no papers and a generation that
  returns the empty text, the response is a success whose answer is the empty text; and
  the body has no key \<^verbatim>\<open>searchExpression\<close>: the search expression is under \<^verbatim>\<open>keywords\<close>.
\<close>

theorem empty_fallback_answer:
  "fst (fetchArxivPapers example_env_silent ''all:xyzzy'' empty_world) = Inr []
   \<and> fst (GET example_env_silent (Some ''xyzzy nonsense quantum frobnicator'') empty_world)
     = Some \<lparr>status = 200,
             body = [(''answer'', JText []), (''keywords'', JText ''all:xyzzy''),
                     (''papers'', JPapers [])]\<rparr>
   \<and> body_value \<lparr>status = 200,
             body = [(''answer'', JText []), (''keywords'', JText ''all:xyzzy''),
                     (''papers'', JPapers [])]\<rparr> ''searchExpression'' = None"
proof -
  let ?q = "''xyzzy nonsense quantum frobnicator''"
  have q: "userQuery_of (Some ?q) = ?q" by (simp add: userQuery_of_def)
  have k: "generateContent example_env_silent (keywordsPrompt (userQuery_of (Some ?q))) = Inr ''all:xyzzy''"
    by (simp add: example_env_silent_def keywordsPrompt_def)
  have n: "generateContent example_env_silent (noResultsPrompt (userQuery_of (Some ?q))) = Inr []"
    by (simp add: example_env_silent_def noResultsPrompt_def)
  have f: "fst (fetchArxivPapers example_env_silent ''all:xyzzy'' empty_world) = Inr []"
    by (simp add: fetchArxivPapers_def example_env_silent_def example_env_def entries_of_def Let_def)
  from GET_no_papers [OF k f, of empty_world] n
  have "fst (GET example_env_silent (Some ?q) empty_world) = Some (json_ok [] ''all:xyzzy'' [])"
    by simp
  with f show ?thesis by (simp add: json_ok_def body_value_def)
qed

text \<open>
  Claim C5, amended. Every response of the handler is either the generic failure or a
  success with status 200 whose body has the keys \<^verbatim>\<open>answer\<close>, \<^verbatim>\<open>keywords\<close> (the search
  expression, as extracted) and \<^verbatim>\<open>papers\<close> (the papers, as fetched). When the fetch
  returns no papers and the no-results generation returns a text, the response is the
  success with that text as it is for the answer, the search expression, and the empty
  list of papers. When the fetch returns papers and the Indexer, the Searcher and the
  grounded generation succeed, the response is the success with the generated text, the
  search expression and the fetched papers.
\<close>

theorem success_response_shape:
  "(\<forall>r. fst (GET E param w0) = Some r \<longrightarrow>
       r = failure_response
       \<or> (\<exists>a kw papers.
             r = \<lparr>status = 200,
                  body = [(''answer'', JText a), (''keywords'', JText kw), (''papers'', JPapers papers)]\<rparr>
           \<and> generateContent E (keywordsPrompt (userQuery_of param)) = Inr kw
           \<and> fst (fetchArxivPapers E kw w0) = Inr papers))
   \<and> (\<forall>kw a. generateContent E (keywordsPrompt (userQuery_of param)) = Inr kw
          \<and> fst (fetchArxivPapers E kw w0) = Inr []
          \<and> generateContent E (noResultsPrompt (userQuery_of param)) = Inr a \<longrightarrow>
        fst (GET E param w0)
          = Some \<lparr>status = 200,
                  body = [(''answer'', JText a), (''keywords'', JText kw), (''papers'', JPapers [])]\<rparr>)
   \<and> (\<forall>kw papers rel a. generateContent E (keywordsPrompt (userQuery_of param)) = Inr kw
          \<and> fst (fetchArxivPapers E kw w0) = Inr papers \<and> papers \<noteq> []
          \<and> fst (upsertToPinecone E papers w0) = Some (Inr ())
          \<and> fst (performVectorSearch E (userQuery_of param)
                   (world_indexed E (userQuery_of param) kw papers w0)) = Inr rel
          \<and> fst (generateAnswer E (userQuery_of param) rel w0) = Inr a \<longrightarrow>
        fst (GET E param w0)
          = Some \<lparr>status = 200,
                  body = [(''answer'', JText a), (''keywords'', JText kw),
                          (''papers'', JPapers papers)]\<rparr>)"
proof -
  have a: "r = failure_response
       \<or> (\<exists>a kw papers.
             r = \<lparr>status = 200,
                  body = [(''answer'', JText a), (''keywords'', JText kw), (''papers'', JPapers papers)]\<rparr>
           \<and> generateContent E (keywordsPrompt (userQuery_of param)) = Inr kw
           \<and> fst (fetchArxivPapers E kw w0) = Inr papers)"
    if r: "fst (GET E param w0) = Some r" for r
  proof (cases "r = failure_response")
    case True
    then show ?thesis by simp
  next
    case False
    from GET_response_cases [OF r False] show ?thesis
      by (auto simp: json_ok_def)
  qed
  have b: "fst (GET E param w0)
          = Some \<lparr>status = 200,
                  body = [(''answer'', JText a), (''keywords'', JText kw), (''papers'', JPapers [])]\<rparr>"
    if "generateContent E (keywordsPrompt (userQuery_of param)) = Inr kw"
      "fst (fetchArxivPapers E kw w0) = Inr []"
      "generateContent E (noResultsPrompt (userQuery_of param)) = Inr a" for kw a
    using GET_no_papers [OF that(1,2), of w0] that(3) by (simp add: json_ok_def)
  have c: "fst (GET E param w0)
          = Some \<lparr>status = 200,
                  body = [(''answer'', JText a), (''keywords'', JText kw),
                          (''papers'', JPapers papers)]\<rparr>"
    if "generateContent E (keywordsPrompt (userQuery_of param)) = Inr kw"
      "fst (fetchArxivPapers E kw w0) = Inr papers" "papers \<noteq> []"
      "fst (upsertToPinecone E papers w0) = Some (Inr ())"
      "fst (performVectorSearch E (userQuery_of param)
             (world_indexed E (userQuery_of param) kw papers w0)) = Inr rel"
      "fst (generateAnswer E (userQuery_of param) rel w0) = Inr a" for kw papers rel a
    using GET_answered [OF that(1-5), of w0] that(6) by (simp add: json_ok_def)
  show ?thesis
    apply (intro conjI allI impI)
    using a b c by blast+
qed

theorem success_response_shape_witness:
  "fst (GET (example_env Missing) (Some ''xyzzy nonsense quantum frobnicator'') empty_world)
     = Some \<lparr>status = 200,
             body = [(''answer'', JText ''some text''), (''keywords'', JText ''some text''),
                     (''papers'', JPapers [])]\<rparr>
   \<and> fst (upsertToPinecone (example_env (Single example_paper)) [example_paper] empty_world)
     = Some (Inr ())
   \<and> fst (performVectorSearch (example_env (Single example_paper)) ''q''
           (world_indexed (example_env (Single example_paper)) ''q'' ''some text''
              [example_paper] empty_world))
     = Inr example_relevant
   \<and> fst (generateAnswer (example_env (Single example_paper)) ''q'' example_relevant empty_world)
     = Inr ''some text''
   \<and> fst (GET (example_env (Single example_paper)) (Some ''q'') empty_world)
     = Some \<lparr>status = 200,
             body = [(''answer'', JText ''some text''), (''keywords'', JText ''some text''),
                     (''papers'', JPapers [example_paper])]\<rparr>"
proof -
  let ?q = "''xyzzy nonsense quantum frobnicator''"
  let ?E = "example_env (Single example_paper)"
  have f: "fst (fetchArxivPapers (example_env Missing) ''some text'' empty_world) = Inr []"
    by (simp add: example_fetch entries_of_def)
  from success_response_shape [of "example_env Missing" "Some ?q" empty_world]
    example_keywords [of Missing] f
  have empty: "fst (GET (example_env Missing) (Some ?q) empty_world)
     = Some \<lparr>status = 200,
             body = [(''answer'', JText ''some text''), (''keywords'', JText ''some text''),
                     (''papers'', JPapers [])]\<rparr>"
    by blast
  have q: "userQuery_of (Some ''q'') = ''q''" by (simp add: userQuery_of_def)
  have k: "generateContent ?E (keywordsPrompt (userQuery_of (Some ''q''))) = Inr ''some text''"
    by (rule example_keywords)
  have f1: "fst (fetchArxivPapers ?E ''some text'' empty_world) = Inr [example_paper]"
    by (simp add: example_fetch entries_of_def)
  have ne: "[example_paper] \<noteq> []" by simp
  have u: "fst (upsertToPinecone ?E [example_paper] empty_world) = Some (Inr ())"
    by (simp add: example_unfold)
  have s: "fst (performVectorSearch ?E (userQuery_of (Some ''q''))
           (world_indexed ?E (userQuery_of (Some ''q'')) ''some text'' [example_paper] empty_world))
     = Inr example_relevant"
    by (rule example_search)
  have "\<forall>p \<in> set example_relevant. similarity p \<noteq> None"
    by (simp add: example_relevant_def del: not_None_eq)
  from render_all [OF this, of ?E] obtain segs
    where "map_result (render ?E) example_relevant = Inr segs" by blast
  from generate_segments [OF this, of "userQuery_of (Some ''q'')" empty_world]
  have g: "fst (generateAnswer ?E (userQuery_of (Some ''q'')) example_relevant empty_world)
      = Inr ''some text''"
    by (simp add: example_keywords)
  from success_response_shape [of ?E "Some ''q''" empty_world] k f1 ne u s g
  have full: "fst (GET ?E (Some ''q'') empty_world)
     = Some \<lparr>status = 200,
             body = [(''answer'', JText ''some text''), (''keywords'', JText ''some text''),
                     (''papers'', JPapers [example_paper])]\<rparr>"
    by blast
  from empty u s g full show ?thesis by (simp add: q)
qed

lemma noResults_not_keywords: "noResultsPrompt q \<noteq> keywordsPrompt q'"
  by (simp add: noResultsPrompt_def keywordsPrompt_def)

lemma noResults_not_answer: "noResultsPrompt q \<noteq> answerPrompt q' c"
  by (simp add: noResultsPrompt_def answerPrompt_def answer_head_def)

lemma GET_grounded_events:
  assumes kw: "generateContent E (keywordsPrompt (userQuery_of param)) = Inr kw"
    and f: "fst (fetchArxivPapers E kw wa) = Inr papers" and ne: "papers \<noteq> []"
  shows "\<exists>evs. trace (snd (GET E param w0)) = trace w0 @ evs
      \<and> GenerateContent (noResultsPrompt (userQuery_of param)) \<notin> set evs"
proof -
  let ?uq = "userQuery_of param"
  let ?w3 = "world_indexed E ?uq kw papers w0"
  let ?no = "GenerateContent (noResultsPrompt ?uq)"
  from world_indexed_trace [of E ?uq kw papers w0 w0] obtain us
    where w3: "trace ?w3 = trace w0 @ [GenerateContent (keywordsPrompt ?uq), Fetch (fetchUrl E kw)]
          @ map (\<lambda>paper. EmbedContent (summary paper)) papers @ map Upsert us"
    by blast
  let ?ix = "[GenerateContent (keywordsPrompt ?uq), Fetch (fetchUrl E kw)]
          @ map (\<lambda>paper. EmbedContent (summary paper)) papers @ map Upsert us"
  have ix: "?no \<notin> set ?ix" by (auto simp: noResults_not_keywords)
  have tail: "\<exists>rest. trace (snd (GET E param w0)) = trace ?w3 @ rest \<and> ?no \<notin> set rest"
  proof (cases "fst (upsertToPinecone E papers w0)")
    case None
    from GET_index_hangs [OF kw f ne None, of w0] show ?thesis by simp
  next
    case (Some j)
    show ?thesis
    proof (cases j)
      case (Inl e)
      with Some have "fst (upsertToPinecone E papers w0) = Some (Inl e)" by simp
      from GET_index_failed [OF kw f ne this, of w0] show ?thesis by simp
    next
      case (Inr u)
      with Some have u: "fst (upsertToPinecone E papers w0) = Some (Inr ())" by simp
      show ?thesis
      proof (cases "fst (performVectorSearch E ?uq ?w3)")
        case (Inl e)
        from GET_search_failed [OF kw f ne u Inl] show ?thesis
          by (auto simp: search_trace split: sum.splits)
      next
        case (Inr rel)
        from GET_searched [OF kw f ne u Inr] obtain v segs
          where "trace (snd (GET E param w0))
             = trace ?w3 @ [EmbedContent (Some ?uq), Query (search_request v),
                 GenerateContent (answerPrompt ?uq (join (nl @ nl) segs))]"
          by auto
        then show ?thesis by (auto simp: noResults_not_answer)
      qed
    qed
  qed
  then obtain rest where "trace (snd (GET E param w0)) = trace ?w3 @ rest" "?no \<notin> set rest"
    by blast
  with w3 ix have "trace (snd (GET E param w0)) = trace w0 @ (?ix @ rest) \<and> ?no \<notin> set (?ix @ rest)"
    by simp
  then show ?thesis by blast
qed

text \<open>
  Claim C10. Let the keywords be extracted and the fetch return a list of papers. The
  generation with the no-results prompt is among the calls of the handler if and only if
  the list is empty. When the list is not empty, the Indexer succeeds and the Searcher
  returns no paper (as it does when every match of the index lacks metadata or score),
  the handler still ends with the generation with the grounded prompt, over an empty
  context, and answers with its text.
\<close>

theorem fallback_only_without_papers:
  assumes kw: "generateContent E (keywordsPrompt (userQuery_of param)) = Inr kw"
    and f: "fst (fetchArxivPapers E kw wa) = Inr papers"
  shows "(\<exists>evs. trace (snd (GET E param w0)) = trace w0 @ evs
            \<and> (GenerateContent (noResultsPrompt (userQuery_of param)) \<in> set evs
                 \<longleftrightarrow> papers = []))
       \<and> (papers \<noteq> [] \<and> fst (upsertToPinecone E papers wb) = Some (Inr ())
            \<and> fst (performVectorSearch E (userQuery_of param)
                     (world_indexed E (userQuery_of param) kw papers w0)) = Inr [] \<longrightarrow>
          (\<exists>v. trace (snd (GET E param w0))
                 = trace (world_indexed E (userQuery_of param) kw papers w0)
                   @ [EmbedContent (Some (userQuery_of param)), Query (search_request v),
                      GenerateContent (answerPrompt (userQuery_of param) [])])
          \<and> fst (GET E param w0)
              = (case generateContent E (answerPrompt (userQuery_of param) []) of
                   Inl e \<Rightarrow> Some failure_response
                 | Inr a \<Rightarrow> Some (json_ok a kw papers)))
       \<and> (\<forall>v ms. embedContent E (Some (userQuery_of param)) = Inr v
              \<and> index_query E (index (world_indexed E (userQuery_of param) kw papers w0))
                    (search_request v) = Inr ms
              \<and> (\<forall>m \<in> set ms. \<not> usable m) \<longrightarrow>
            fst (performVectorSearch E (userQuery_of param)
                  (world_indexed E (userQuery_of param) kw papers w0)) = Inr [])"
proof -
  let ?uq = "userQuery_of param"
  let ?w3 = "world_indexed E ?uq kw papers w0"
  have a: "\<exists>evs. trace (snd (GET E param w0)) = trace w0 @ evs
            \<and> (GenerateContent (noResultsPrompt ?uq) \<in> set evs \<longleftrightarrow> papers = [])"
  proof (cases "papers = []")
    case True
    with f have "fst (fetchArxivPapers E kw wa) = Inr []" by simp
    from GET_no_papers [OF kw this, of w0]
    have "trace (snd (GET E param w0))
        = trace w0 @ [GenerateContent (keywordsPrompt ?uq), Fetch (fetchUrl E kw),
                      GenerateContent (noResultsPrompt ?uq)]"
      by (simp add: world_fetched_trace log_event_def)
    with True show ?thesis by auto
  next
    case False
    with GET_grounded_events [OF kw f False, of w0] show ?thesis by auto
  qed
  have b: "(\<exists>v. trace (snd (GET E param w0))
                 = trace ?w3 @ [EmbedContent (Some ?uq), Query (search_request v),
                      GenerateContent (answerPrompt ?uq [])])
          \<and> fst (GET E param w0)
              = (case generateContent E (answerPrompt ?uq []) of
                   Inl e \<Rightarrow> Some failure_response
                 | Inr a \<Rightarrow> Some (json_ok a kw papers))"
    if ne: "papers \<noteq> []" and u: "fst (upsertToPinecone E papers wb) = Some (Inr ())"
      and s: "fst (performVectorSearch E ?uq ?w3) = Inr []"
  proof -
    from GET_searched [OF kw f ne u s] obtain v segs
      where "list_all2 (\<lambda>p s. render E p = Inr s) [] segs"
        and g: "GET E param w0
        = ((case generateContent E (answerPrompt ?uq (join (nl @ nl) segs)) of
              Inl e \<Rightarrow> Some failure_response
            | Inr answer \<Rightarrow> Some (json_ok answer kw papers)),
           ?w3\<lparr>trace := trace ?w3
                @ [EmbedContent (Some ?uq), Query (search_request v),
                   GenerateContent (answerPrompt ?uq (join (nl @ nl) segs))]\<rparr>)"
      by blast
    then have "segs = []" by simp
    with g show ?thesis by auto
  qed
  have c: "fst (performVectorSearch E ?uq ?w3) = Inr []"
    if "embedContent E (Some ?uq) = Inr v"
      "index_query E (index ?w3) (search_request v) = Inr ms" "\<forall>m \<in> set ms. \<not> usable m"
    for v ms
  proof -
    from that(3) have "filter usable ms = []" by (simp add: filter_empty_conv)
    with that(1,2) show ?thesis
      by (simp add: performVectorSearch_def Let_def log_event_def)
  qed
  from a b c show ?thesis by blast
qed


theorem fallback_only_without_papers_witness:
  "fst (performVectorSearch example_env_unusable ''q''
         (world_indexed example_env_unusable ''q'' ''some text'' [example_paper] empty_world))
     = Inr []
   \<and> fst (GET example_env_unusable (Some ''q'') empty_world)
     = Some \<lparr>status = 200,
             body = [(''answer'', JText ''some text''), (''keywords'', JText ''some text''),
                     (''papers'', JPapers [example_paper])]\<rparr>
   \<and> trace (snd (GET example_env_unusable (Some ''q'') empty_world))
     = trace (world_indexed example_env_unusable ''q'' ''some text'' [example_paper] empty_world)
       @ [EmbedContent (Some ''q''),
          Query \<lparr>q_vector = [1, 0], topK = 5, includeMetadata = True, includeValues = True\<rparr>,
          GenerateContent (answerPrompt ''q'' [])]"
proof -
  let ?E = example_env_unusable
  let ?w3 = "world_indexed ?E ''q'' ''some text'' [example_paper] empty_world"
  have q: "userQuery_of (Some ''q'') = ''q''" by (simp add: userQuery_of_def)
  have k: "generateContent ?E (keywordsPrompt (userQuery_of (Some ''q''))) = Inr ''some text''"
    by (simp add: example_env_unusable_def example_env_def)
  have f: "fst (fetchArxivPapers ?E ''some text'' empty_world) = Inr [example_paper]"
    by (simp add: fetchArxivPapers_def example_env_unusable_def example_env_def entries_of_def Let_def)
  have u: "fst (upsertToPinecone ?E [example_paper] empty_world) = Some (Inr ())"
    by (simp add: example_env_unusable_def example_unfold)
  have s: "fst (performVectorSearch ?E ''q'' ?w3) = Inr []"
    by (simp add: performVectorSearch_def example_env_unusable_def example_env_def Let_def
          example_matches_def usable_def)
  have g: "generateContent ?E (answerPrompt ''q'' []) = Inr ''some text''"
    by (simp add: example_env_unusable_def example_env_def)
  from fallback_only_without_papers [OF k f, of empty_world empty_world] u s
  obtain v where tr: "trace (snd (GET ?E (Some ''q'') empty_world))
        = trace ?w3 @ [EmbedContent (Some ''q''), Query (search_request v),
             GenerateContent (answerPrompt ''q'' [])]"
    and r: "fst (GET ?E (Some ''q'') empty_world) = Some (json_ok ''some text'' ''some text'' [example_paper])"
    by (auto simp: q g)
  from GET_searched [OF k f _ u, of empty_world "[]"] s tr
  have "search_request v = search_request [1, 0]"
    by (auto simp: q example_env_unusable_def example_env_def)
  with tr r s show ?thesis by (simp add: search_request_def json_ok_def)
qed

text \<open>
  Claim C8 as stated fails. A fetched paper without abstract is not dropped: the
  embedding of its absent abstract is requested, and with an embedder that rejects it
  the run ends with the failure response.
\<close>

theorem no_abstract_not_dropped:
  "fst (GET (example_env (Many [example_paper, example_paper_no_abstract])) (Some ''q'') empty_world)
     = Some failure_response
   \<and> EmbedContent None
       \<in> set (trace (snd (GET (example_env (Many [example_paper, example_paper_no_abstract]))
                             (Some ''q'') empty_world)))"
proof -
  let ?ps = "[example_paper, example_paper_no_abstract]"
  let ?E = "example_env (Many ?ps)"
  have q: "userQuery_of (Some ''q'') = ''q''" by (simp add: userQuery_of_def)
  have f: "fst (fetchArxivPapers ?E ''some text'' empty_world) = Inr ?ps"
    by (simp add: example_fetch entries_of_def)
  have u: "fst (upsertToPinecone ?E ?ps empty_world) = Some (Inl (Thrown ''empty content''))"
    by (simp add: example_unfold)
  have "EmbedContent None \<in> set (map (\<lambda>paper. EmbedContent (summary paper)) ?ps)"
    by (simp add: example_paper_no_abstract_def)
  with world_indexed_trace [of ?E "''q''" "''some text''" ?ps empty_world empty_world]
  have "EmbedContent None \<in> set (trace (world_indexed ?E ''q'' ''some text'' ?ps empty_world))"
    by auto
  with GET_index_failed [OF example_keywords f _ u, of "Some ''q''" empty_world]
  show ?thesis by (simp add: q)
qed

text \<open>
  Claim C8, amended. A paper without abstract stays in the list: the Indexer requests the
  embedding of its absent abstract as for any other paper. If the embedder rejects it,
  the Indexer does not succeed, and the handler answers with the generic failure (or
  never answers, if the join never settles; it answers once every operation has
  settled). A record built for such a paper has an undefined abstract.
\<close>

theorem abstract_passed_as_is:
  assumes p: "paper \<in> set papers" and s: "summary paper = None"
  shows "EmbedContent None \<in> set (trace (snd (upsertToPinecone E papers w)))
       \<and> (\<forall>e. embedContent E None = Inl e \<longrightarrow>
             fst (upsertToPinecone E papers w) \<noteq> Some (Inr ()))
       \<and> (\<forall>e kw. embedContent E None = Inl e
              \<and> generateContent E (keywordsPrompt (userQuery_of param)) = Inr kw
              \<and> fst (fetchArxivPapers E kw w0) = Inr papers \<longrightarrow>
             (fst (GET E param w0) = None \<or> fst (GET E param w0) = Some failure_response)
             \<and> (complete (schedule E) (length papers) \<longrightarrow>
                  fst (GET E param w0) = Some failure_response))
       \<and> (\<forall>v r. build_record paper v = Inr r \<longrightarrow> m_abstract (rec_metadata r) = JUndefined)"
proof -
  have "EmbedContent (summary paper) \<in> set (map (\<lambda>paper. EmbedContent (summary paper)) papers)"
    using p by auto
  with upsert_trace [of E papers w] s
  have a: "EmbedContent None \<in> set (trace (snd (upsertToPinecone E papers w)))"
    by auto
  have fails: "op_fails E paper" if "embedContent E None = Inl e" for e
    using that s by (simp add: op_fails_def record_of_def)
  have b: "fst (upsertToPinecone E papers w') \<noteq> Some (Inr ())"
    if "embedContent E None = Inl e" for e w'
    using upsert_success_all [of E papers w' "()"] fails [OF that] p by auto
  have c: "(fst (GET E param w0) = None \<or> fst (GET E param w0) = Some failure_response)
             \<and> (complete (schedule E) (length papers) \<longrightarrow>
                  fst (GET E param w0) = Some failure_response)"
    if e: "embedContent E None = Inl e"
      and kw: "generateContent E (keywordsPrompt (userQuery_of param)) = Inr kw"
      and f: "fst (fetchArxivPapers E kw w0) = Inr papers" for e kw
  proof -
    from p have ne: "papers \<noteq> []" by auto
    show ?thesis
    proof (cases "fst (upsertToPinecone E papers w0)")
      case None
      from GET_index_hangs [OF kw f ne None, of w0] upsert_settles [of E papers w0] None
      show ?thesis by auto
    next
      case (Some j)
      with b [OF e, of w0] obtain e' where "fst (upsertToPinecone E papers w0) = Some (Inl e')"
        by (cases j) auto
      from GET_index_failed [OF kw f ne this, of w0] show ?thesis by simp
    qed
  qed
  have d: "\<forall>v r. build_record paper v = Inr r \<longrightarrow> m_abstract (rec_metadata r) = JUndefined"
    using s by (auto simp: build_record_def summary_value_def split: sum.splits)
  from a b c d show ?thesis by blast
qed

theorem abstract_passed_as_is_witness:
  "EmbedContent None
     \<in> set (trace (snd (upsertToPinecone (example_env (Many [example_paper, example_paper_no_abstract]))
                          [example_paper, example_paper_no_abstract] empty_world)))
   \<and> fst (upsertToPinecone (example_env (Many [example_paper, example_paper_no_abstract]))
            [example_paper, example_paper_no_abstract] empty_world) \<noteq> Some (Inr ())
   \<and> fst (GET (example_env (Many [example_paper, example_paper_no_abstract])) None empty_world)
       = Some failure_response"
proof -
  let ?ps = "[example_paper, example_paper_no_abstract]"
  let ?E = "example_env (Many ?ps)"
  have p: "example_paper_no_abstract \<in> set ?ps" by simp
  have s: "summary example_paper_no_abstract = None" by (simp add: example_paper_no_abstract_def)
  have e: "embedContent ?E None = Inl (Thrown ''empty content'')" by (simp add: example_env_def)
  have f: "fst (fetchArxivPapers ?E ''some text'' empty_world) = Inr ?ps"
    by (simp add: example_fetch entries_of_def)
  have c: "complete (schedule ?E) (length ?ps)"
    by (simp add: complete_def example_env_def less_Suc_eq numeral_2_eq_2)
  from abstract_passed_as_is [OF p s, of ?E empty_world None empty_world] e f c
    example_keywords [of "Many ?ps"]
  show ?thesis by blast
qed

end
